theory Spec2Isabelle
  imports Main "HOL-Library.Word"
begin

section \<open>JavaScript values\<close>

text \<open>
  The program is one Node.js file, \<^verbatim>\<open>findbad_catastrophic.js\<close>. Its numbers are
  JavaScript numbers holding integers (byte offsets, block numbers, inode numbers); all
  of them stay far below \<open>2^53\<close>, where the arithmetic of doubles is exact, so they are
  modelled as \<open>int\<close>. A string is the list of its UTF-16 code units, each a \<open>nat\<close>;
  a \<^verbatim>\<open>Buffer\<close> is the list of its bytes.
\<close>

type_synonym jsstring = "nat list"
type_synonym buffer = "8 word list"

definition js :: "string \<Rightarrow> jsstring" where
  "js s = map of_char s"

text \<open>Every \<^verbatim>\<open>throw\<close> of the source, and every rejected promise, is a value.\<close>

datatype error =
    StreamError
  | StreamEnded
  | ExpectDisposed
  | WeirdResponse
  | GroupMissing int
  | OutOfRange

text \<open>JavaScript's \<^verbatim>\<open>%\<close> takes the sign of the dividend.\<close>

definition js_rem :: "int \<Rightarrow> int \<Rightarrow> int" where
  "js_rem a b = sgn a * (\<bar>a\<bar> mod \<bar>b\<bar>)"

section \<open>Bad-region index\<close>

record bad_range =
  range_start :: int
  range_length :: int

definition badRanges :: "bad_range list" where
  "badRanges =
    [ \<lparr>range_start = 0x23bad54000, range_length = 0x294000\<rparr>,
      \<lparr>range_start = 0x23ef054000, range_length = 0x294000\<rparr>,
      \<lparr>range_start = 0x23ef654000, range_length = 0x294000\<rparr>,
      \<lparr>range_start = 0x23feadc000, range_length = 0x294000\<rparr>,
      \<lparr>range_start = 0x241f9dc000, range_length = 0x1539973e00\<rparr>,
      \<lparr>range_start = 0x398da03000, range_length = 0x0a00\<rparr> ]"

text \<open>The \<^verbatim>\<open>for (const range of badRanges)\<close> loop of \<^verbatim>\<open>rangeIsSafe\<close>, over the
  ranges still to be looked at.\<close>

fun rangeIsSafe_loop :: "bad_range list \<Rightarrow> int \<Rightarrow> int \<Rightarrow> bool" where
  "rangeIsSafe_loop [] s e = True"
| "rangeIsSafe_loop (r # rs) s e =
     (if e > range_start r \<and> s < range_start r + range_length r then False
      else rangeIsSafe_loop rs s e)"

definition rangeIsSafe :: "int \<Rightarrow> int \<Rightarrow> bool" where
  "rangeIsSafe s e = rangeIsSafe_loop badRanges s e"

definition blockIsSafe :: "int \<Rightarrow> bool" where
  "blockIsSafe blockNum = rangeIsSafe (blockNum * 4096) ((blockNum + 1) * 4096)"

section \<open>Inode table locator\<close>

text \<open>\<^verbatim>\<open>startOfInodeTableByGroup\<close> is a global \<^verbatim>\<open>Map\<close> from group number to byte
  offset, set once by \<^verbatim>\<open>main\<close>; here it is a parameter.\<close>

type_synonym group_table = "int \<rightharpoonup> int"

definition getAddressOfInode :: "group_table \<Rightarrow> int \<Rightarrow> error + int" where
  "getAddressOfInode startOfInodeTableByGroup inode =
     (let group = (inode - 1) div 8028;
          index = js_rem (inode - 1) 8028
      in case startOfInodeTableByGroup group of
           None \<Rightarrow> Inl (GroupMissing group)
         | Some startOfInodeTable \<Rightarrow> Inr (startOfInodeTable + index * 256))"

definition inodeIsSafe :: "group_table \<Rightarrow> int \<Rightarrow> error + bool" where
  "inodeIsSafe tbl inode =
     (case getAddressOfInode tbl inode of
        Inl err \<Rightarrow> Inl err
      | Inr address \<Rightarrow> Inr (rangeIsSafe address (address + 256)))"

section \<open>Hex-dump decoder\<close>

definition isLineTerminator :: "nat \<Rightarrow> bool" where
  "isLineTerminator c = (c = 10 \<or> c = 13 \<or> c = 8232 \<or> c = 8233)"

definition isOctalDigit :: "nat \<Rightarrow> bool" where
  "isOctalDigit c = (48 \<le> c \<and> c \<le> 55)"

definition isDigit :: "nat \<Rightarrow> bool" where
  "isDigit c = (48 \<le> c \<and> c \<le> 57)"

text \<open>The class \<^verbatim>\<open>\w\<close> of a regular expression without the \<^verbatim>\<open>u\<close> and \<^verbatim>\<open>i\<close> flags:
  ASCII letters, digits and the underscore.\<close>

definition isWordChar :: "nat \<Rightarrow> bool" where
  "isWordChar c = (isDigit c \<or> (65 \<le> c \<and> c \<le> 90) \<or> c = 95 \<or> (97 \<le> c \<and> c \<le> 122))"

definition isSpace :: "nat \<Rightarrow> bool" where
  "isSpace c = (c = 32)"

text \<open>The value of a code unit as a digit of \<^verbatim>\<open>parseInt\<close>; 36, a digit of no radix,
  for every other code unit.\<close>

definition digitValue :: "nat \<Rightarrow> nat" where
  "digitValue c =
     (if 48 \<le> c \<and> c \<le> 57 then c - 48
      else if 97 \<le> c \<and> c \<le> 122 then c - 87
      else if 65 \<le> c \<and> c \<le> 90 then c - 55
      else 36)"

text \<open>
  \<^verbatim>\<open>parseInt(s, radix)\<close> for a radix from 2 to 36: with radix 16 a leading \<^verbatim>\<open>0x\<close> or
  \<^verbatim>\<open>0X\<close> is removed, then the longest prefix of digits is read; \<open>None\<close> is \<^verbatim>\<open>NaN\<close>,
  the result when that prefix is empty. The source applies it to groups captured by
  \<^verbatim>\<open>[0-7]{4}\<close> and \<^verbatim>\<open>\w\w\<close>, which hold neither white space nor a sign, so the
  trimming and the sign of \<^verbatim>\<open>parseInt\<close> have nothing to do.
\<close>

definition parseInt :: "jsstring \<Rightarrow> nat \<Rightarrow> int option" where
  "parseInt s radix =
     (let S = (if radix = 16 \<and> (take 2 s = [48, 120] \<or> take 2 s = [48, 88]) then drop 2 s else s);
          Z = takeWhile (\<lambda>c. digitValue c < radix) S
      in if Z = [] then None
         else Some (foldl (\<lambda>acc c. acc * int radix + int (digitValue c)) 0 Z))"

text \<open>\<^verbatim>\<open>buffer[index] = value\<close> on a \<^verbatim>\<open>Buffer\<close>: the value is reduced to a byte
  (\<^verbatim>\<open>NaN\<close> to 0), and an index outside the buffer stores nothing.\<close>

definition storeByte :: "buffer \<Rightarrow> int \<Rightarrow> int option \<Rightarrow> buffer" where
  "storeByte buffer index v =
     (if 0 \<le> index \<and> index < int (length buffer)
      then buffer[nat index := (case v of None \<Rightarrow> 0 | Some n \<Rightarrow> word_of_int n)]
      else buffer)"

text \<open>
  \<^verbatim>\<open>parseHexRegex\<close> is \<^verbatim>\<open>/^([0-7]{4})  (\w\w\w\w) ... (\w\w\w\w)/gm\<close>, eight groups of
  four word characters: after the \<^verbatim>\<open>^\<close> it is a sequence of 45 character classes.
\<close>

definition parseHexPattern :: "(nat \<Rightarrow> bool) list" where
  "parseHexPattern =
     replicate 4 isOctalDigit @ [isSpace, isSpace] @ replicate 4 isWordChar
     @ concat (replicate 7 (isSpace # replicate 4 isWordChar))"

text \<open>Whether the text \<open>s\<close> starts with one character of each class of \<open>pat\<close>, in
  order.\<close>

fun matchesAt :: "(nat \<Rightarrow> bool) list \<Rightarrow> jsstring \<Rightarrow> bool" where
  "matchesAt [] s = True"
| "matchesAt (p # ps) [] = False"
| "matchesAt (p # ps) (c # cs) = (p c \<and> matchesAt ps cs)"

text \<open>Group \<open>k\<close> of a match that starts the string \<open>s\<close>: group 1 is the offset, groups
  2 to 9 the words.\<close>

definition hexGroup :: "jsstring \<Rightarrow> nat \<Rightarrow> jsstring" where
  "hexGroup s k = (if k = 1 then take 4 s else take 4 (drop (6 + 5 * (k - 2)) s))"

text \<open>The body of the \<^verbatim>\<open>while\<close> loop of \<^verbatim>\<open>parseHex\<close> for one match; \<open>m\<close> is the
  matched text. Were the offset \<^verbatim>\<open>NaN\<close>, every store would have the index \<^verbatim>\<open>NaN\<close> and
  leave the bytes alone.\<close>

definition hexLineStart :: "jsstring \<Rightarrow> int option" where
  "hexLineStart m = parseInt (hexGroup m 1) 8"

definition storeHexLine :: "jsstring \<Rightarrow> buffer \<Rightarrow> buffer" where
  "storeHexLine m buffer =
     (case hexLineStart m of
        None \<Rightarrow> buffer
      | Some start \<Rightarrow>
          foldl (\<lambda>buf i.
            storeByte buf (start + int i)
              (parseInt (take 2 (drop ((i mod 2) * 2) (hexGroup m (i div 2 + 2)))) 16))
          buffer [0..<16])"

text \<open>
  The loop \<^verbatim>\<open>while ((match = parseHexRegex.exec(hex)))\<close>. The regular expression is
  global, so each \<^verbatim>\<open>exec\<close> searches from where the last match ended; \<open>bol\<close> says
  whether \<^verbatim>\<open>^\<close> holds at the head of the text still to be searched. The loop always
  runs until \<^verbatim>\<open>exec\<close> finds nothing, which sets \<^verbatim>\<open>lastIndex\<close> back to 0, so every
  call of \<^verbatim>\<open>parseHex\<close> searches from the start of its string.
\<close>

function parseHex_loop :: "bool \<Rightarrow> jsstring \<Rightarrow> buffer \<Rightarrow> buffer" where
  "parseHex_loop bol [] buffer = buffer"
| "parseHex_loop bol (c # cs) buffer =
     (if bol \<and> matchesAt parseHexPattern (c # cs)
      then parseHex_loop False (drop 45 (c # cs)) (storeHexLine (take 45 (c # cs)) buffer)
      else parseHex_loop (isLineTerminator c) cs buffer)"
  by pat_completeness auto
termination
  by (relation "measure (\<lambda>(bol, s, buffer). length s)") auto

text \<open>\<^verbatim>\<open>Buffer.alloc(size)\<close> gives \<open>size\<close> zero bytes; \<open>sz\<close> ranges over the lengths it
  accepts (the program asks for 256 and 4096).\<close>

definition parseHex :: "nat \<Rightarrow> jsstring \<Rightarrow> buffer" where
  "parseHex sz hex = parseHex_loop True hex (replicate sz 0)"

text \<open>
  What the format calls the lines of a dump: every place of the text where a line
  starts (the start of the text, or just after a line terminator) and the pattern of an
  offset and eight words matches, from first to last.
\<close>

fun matchingLines :: "bool \<Rightarrow> jsstring \<Rightarrow> jsstring list" where
  "matchingLines bol [] = []"
| "matchingLines bol (c # cs) =
     (if bol \<and> matchesAt parseHexPattern (c # cs) then [take 45 (c # cs)] else [])
     @ matchingLines (isLineTerminator c) cs"

text \<open>The byte positions that a line of the dump describes: sixteen, from its offset.\<close>

definition coversByte :: "jsstring \<Rightarrow> nat \<Rightarrow> bool" where
  "coversByte m j =
     (case hexLineStart m of None \<Rightarrow> False | Some start \<Rightarrow> start \<le> int j \<and> int j < start + 16)"

section \<open>Buffer reads\<close>

text \<open>\<^verbatim>\<open>readUint16LE\<close> and \<^verbatim>\<open>readUint32LE\<close> throw a \<^verbatim>\<open>RangeError\<close> when the bytes
  asked for are not all inside the buffer.\<close>

definition u16at :: "buffer \<Rightarrow> nat \<Rightarrow> int" where
  "u16at buf off = uint (buf ! off) + 256 * uint (buf ! (off + 1))"

definition u32at :: "buffer \<Rightarrow> nat \<Rightarrow> int" where
  "u32at buf off =
     uint (buf ! off) + 256 * uint (buf ! (off + 1))
     + 65536 * uint (buf ! (off + 2)) + 16777216 * uint (buf ! (off + 3))"

definition readUint16LE :: "buffer \<Rightarrow> nat \<Rightarrow> error + int" where
  "readUint16LE buf off = (if off + 2 \<le> length buf then Inr (u16at buf off) else Inl OutOfRange)"

definition readUint32LE :: "buffer \<Rightarrow> nat \<Rightarrow> error + int" where
  "readUint32LE buf off = (if off + 4 \<le> length buf then Inr (u32at buf off) else Inl OutOfRange)"

section \<open>The inspector session\<close>

text \<open>
  The commands the program writes to \<^verbatim>\<open>debugfs\<close>: \<^verbatim>\<open>stats\<close>, \<^verbatim>\<open>id <n>\<close>,
  \<^verbatim>\<open>bd n\<close> and \<^verbatim>\<open>ls -p <n>\<close>. What the program does to the outside is a list of
  events: the commands it sends and the lines it prints.
\<close>

datatype cmd = Stats | Id int | Bd int | Ls int

datatype event = Sent cmd | Printed jsstring

text \<open>
  The inspector answers the commands in the order they are written, one reply for
  each (the assumption the program is built on); it reads a file system that does not
  change, so its reply is a function of the command. \<open>Inl\<close> is a rejected
  \<^verbatim>\<open>debugfs.next()\<close>, \<open>Inr\<close> the text up to the next prompt.
\<close>

type_synonym inspector = "cmd \<Rightarrow> error + jsstring"

text \<open>
  A computation that may throw and that sends and prints on the way: its value or its
  error, with the events it caused. \<open>None\<close> is a computation that has not returned
  when its fuel is used up.
\<close>

type_synonym 'a run = "((error + 'a) \<times> event list) option"

definition ret :: "'a \<Rightarrow> 'a run" where
  "ret x = Some (Inr x, [])"

definition lift :: "error + 'a \<Rightarrow> 'a run" where
  "lift r = Some (r, [])"

definition emit :: "event \<Rightarrow> unit run" where
  "emit ev = Some (Inr (), [ev])"

definition andThen :: "'a run \<Rightarrow> ('a \<Rightarrow> 'b run) \<Rightarrow> 'b run" where
  "andThen m f =
     (case m of
        None \<Rightarrow> None
      | Some (Inl err, evs) \<Rightarrow> Some (Inl err, evs)
      | Some (Inr x, evs) \<Rightarrow>
          (case f x of None \<Rightarrow> None | Some (r, evs') \<Rightarrow> Some (r, evs @ evs')))"

text \<open>The loops of the shape
  \<^verbatim>\<open>for (let i = 0; i < n; i++) { if (!(...)) return false; } return true;\<close>
  over the indices still to be visited.\<close>

fun allSafe :: "(nat \<Rightarrow> bool run) \<Rightarrow> nat list \<Rightarrow> bool run" where
  "allSafe body [] = ret True"
| "allSafe body (i # rest) =
     andThen (body i) (\<lambda>safe. if safe then allSafe body rest else ret False)"

text \<open>\<^verbatim>\<open>s.match(/(?<=\n)(?:.|\s)*/)\<close>: the match starts just after the first line feed
  and takes the rest of the string; there is none when the string has no line feed.\<close>

definition afterFirstLine :: "jsstring \<Rightarrow> jsstring option" where
  "afterFirstLine s = (case dropWhile (\<lambda>c. c \<noteq> 10) s of [] \<Rightarrow> None | c # rest \<Rightarrow> Some rest)"

definition debugfsReply :: "inspector \<Rightarrow> cmd \<Rightarrow> error + jsstring" where
  "debugfsReply env c =
     (case env c of
        Inl err \<Rightarrow> Inl err
      | Inr s \<Rightarrow> (case afterFirstLine s of None \<Rightarrow> Inl WeirdResponse | Some m \<Rightarrow> Inr m))"

definition debugfsCmd :: "inspector \<Rightarrow> cmd \<Rightarrow> jsstring run" where
  "debugfsCmd env c = Some (debugfsReply env c, [Sent c])"

section \<open>Inode records\<close>

record inode_info =
  ino_id :: int
  ino_name :: jsstring
  ino_buf :: buffer

definition InodeInfo :: "int \<Rightarrow> jsstring \<Rightarrow> jsstring \<Rightarrow> inode_info" where
  "InodeInfo i name hex = \<lparr>ino_id = i, ino_name = name, ino_buf = parseHex 256 hex\<rparr>"

definition S_IFDIR :: int where "S_IFDIR = 0x4000"
definition S_IFREG :: int where "S_IFREG = 0x8000"
definition S_EXTENTS :: int where "S_EXTENTS = 0x080000"

definition blockIdsPerBlock :: int where "blockIdsPerBlock = 4096 div 4"
definition blockCounts_L1 :: int where "blockCounts_L1 = 1024"
definition blockCounts_L2 :: int where "blockCounts_L2 = 1024 ^ 2"
definition blockCounts_L3 :: int where "blockCounts_L3 = 1024 ^ 3"

definition onValue :: "('a \<Rightarrow> 'b) \<Rightarrow> error + 'a \<Rightarrow> error + 'b" where
  "onValue f r = (case r of Inl err \<Rightarrow> Inl err | Inr x \<Rightarrow> Inr (f x))"

text \<open>\<^verbatim>\<open>Boolean(x & MASK)\<close>: whether \<open>x\<close> has a bit of the mask.\<close>

definition isDir :: "inode_info \<Rightarrow> error + bool" where
  "isDir info = onValue (\<lambda>mode. and mode S_IFDIR \<noteq> 0) (readUint16LE (ino_buf info) 0)"

definition isFile :: "inode_info \<Rightarrow> error + bool" where
  "isFile info = onValue (\<lambda>mode. and mode S_IFREG \<noteq> 0) (readUint16LE (ino_buf info) 0)"

definition usesExtents :: "inode_info \<Rightarrow> error + bool" where
  "usesExtents info = onValue (\<lambda>flags. and flags S_EXTENTS \<noteq> 0) (readUint32LE (ino_buf info) 0x20)"

text \<open>\<^verbatim>\<open>Math.ceil(a / b)\<close> for integers \<open>a\<close> and \<open>b > 0\<close>.\<close>

definition ceilDiv :: "int \<Rightarrow> int \<Rightarrow> int" where
  "ceilDiv a b = (a + b - 1) div b"

definition blocksInUse :: "inode_info \<Rightarrow> error + int" where
  "blocksInUse info = onValue (\<lambda>bytes. ceilDiv bytes 4096) (readUint32LE (ino_buf info) 0x04)"

definition get_i_block :: "inode_info \<Rightarrow> buffer" where
  "get_i_block info = take 60 (drop 0x28 (ino_buf info))"

subsection \<open>Extent trees\<close>

text \<open>
  \<^verbatim>\<open>extentsAreSafe\<close> calls itself on every child block, and reads the depth of a node
  from the node itself: a block that names itself as its child is walked for ever. The
  first argument bounds the number of nested calls.
\<close>

text \<open>The two branches of the loop body: entry \<open>i\<close> of a leaf, a run of blocks, and
  entry \<open>i\<close> of an inner node, whose child block is fetched and walked by \<open>walk\<close>.\<close>

definition extentLeafEntry :: "buffer \<Rightarrow> nat \<Rightarrow> bool run" where
  "extentLeafEntry buf i =
     andThen (lift (readUint32LE buf (12 * (i + 1) + 0x08))) (\<lambda>firstBlockNum.
     andThen (lift (readUint16LE buf (12 * (i + 1) + 0x04))) (\<lambda>blockCount.
       ret (rangeIsSafe (firstBlockNum * 4096) ((firstBlockNum + blockCount) * 4096))))"

definition extentIndexEntry :: "(buffer \<Rightarrow> bool run) \<Rightarrow> inspector \<Rightarrow> buffer \<Rightarrow> nat \<Rightarrow> bool run" where
  "extentIndexEntry walk env buf i =
     andThen (lift (readUint32LE buf (12 * (i + 1) + 0x04))) (\<lambda>child.
     andThen (debugfsCmd env (Bd child)) (\<lambda>hex.
       walk (parseHex 4096 hex)))"

fun extentsAreSafe :: "nat \<Rightarrow> inspector \<Rightarrow> buffer \<Rightarrow> bool run" where
  "extentsAreSafe 0 env buf = None"
| "extentsAreSafe (Suc fuel) env buf =
     andThen (lift (readUint16LE buf 0x02)) (\<lambda>entryCount.
     andThen (lift (readUint16LE buf 0x06)) (\<lambda>depth.
       let leaf = (depth = 0) in
       allSafe (\<lambda>i.
         if leaf then extentLeafEntry buf i
         else extentIndexEntry (\<lambda>childBlock. extentsAreSafe fuel env childBlock) env buf i)
       [0..<nat entryCount]))"

subsection \<open>Indirect blocks\<close>

definition blocksL1AreSafe :: "inspector \<Rightarrow> int \<Rightarrow> int \<Rightarrow> bool run" where
  "blocksL1AreSafe env blockNum level1Blocks =
     andThen (debugfsCmd env (Bd blockNum)) (\<lambda>hex.
       let buffer = parseHex 4096 hex in
       allSafe (\<lambda>i. andThen (lift (readUint32LE buffer (i * 4))) (\<lambda>p. ret (blockIsSafe p)))
         [0..<nat level1Blocks])"

text \<open>\<^verbatim>\<open>x || y\<close> on numbers: \<open>y\<close> when \<open>x\<close> is 0.\<close>

definition orElse :: "int \<Rightarrow> int \<Rightarrow> int" where
  "orElse x y = (if x = 0 then y else x)"

text \<open>The number of entries to look at in the single-indirect block that entry \<open>i\<close> of a
  double-indirect block names, and the number of blocks below entry \<open>i\<close> of a
  triple-indirect block: the expressions of the source.\<close>

definition level1BlocksAt :: "int \<Rightarrow> nat \<Rightarrow> int" where
  "level1BlocksAt level2Blocks i =
     orElse (js_rem (min level2Blocks ((int i + 1) * blockIdsPerBlock)) blockIdsPerBlock)
       blockIdsPerBlock"

definition level2BlocksAt :: "int \<Rightarrow> nat \<Rightarrow> int" where
  "level2BlocksAt level3Blocks i =
     orElse (js_rem (min level3Blocks ((int i + 1) * blockIdsPerBlock ^ 2)) (blockIdsPerBlock ^ 2))
       (blockIdsPerBlock ^ 2)"

definition blocksL2AreSafe :: "inspector \<Rightarrow> int \<Rightarrow> int \<Rightarrow> bool run" where
  "blocksL2AreSafe env blockNum level2Blocks =
     andThen (debugfsCmd env (Bd blockNum)) (\<lambda>hex.
       let buffer = parseHex 4096 hex;
           pointers = ceilDiv level2Blocks blockIdsPerBlock
       in allSafe (\<lambda>i.
            andThen (lift (readUint32LE buffer (i * 4))) (\<lambda>pointer.
              if \<not> blockIsSafe pointer then ret False
              else blocksL1AreSafe env pointer (level1BlocksAt level2Blocks i)))
          [0..<nat pointers])"

definition blocksL3AreSafe :: "inspector \<Rightarrow> int \<Rightarrow> int \<Rightarrow> bool run" where
  "blocksL3AreSafe env blockNum level3Blocks =
     andThen (debugfsCmd env (Bd blockNum)) (\<lambda>hex.
       let buffer = parseHex 4096 hex;
           pointers = ceilDiv level3Blocks (blockIdsPerBlock ^ 2)
       in allSafe (\<lambda>i.
            andThen (lift (readUint32LE buffer (i * 4))) (\<lambda>pointer.
              if \<not> blockIsSafe pointer then ret False
              else blocksL2AreSafe env pointer (level2BlocksAt level3Blocks i)))
          [0..<nat pointers])"

definition blocksAreSafe :: "inspector \<Rightarrow> inode_info \<Rightarrow> buffer \<Rightarrow> bool run" where
  "blocksAreSafe env info i_block =
     andThen (lift (blocksInUse info)) (\<lambda>blocksInUse.
       let directBlocks = min 12 blocksInUse in
       andThen (allSafe (\<lambda>i. andThen (lift (readUint32LE i_block (i * 4)))
                               (\<lambda>blockNum. ret (blockIsSafe blockNum)))
                  [0..<nat directBlocks]) (\<lambda>safeDirect.
       if \<not> safeDirect then ret False
       else
         let level1Blocks = min blockCounts_L1 (blocksInUse - directBlocks) in
         if level1Blocks \<le> 0 then ret True
         else
           andThen (lift (readUint32LE i_block (12 * 4))) (\<lambda>p1.
           andThen (blocksL1AreSafe env p1 level1Blocks) (\<lambda>safeL1.
           if \<not> safeL1 then ret False
           else
             let level2Blocks = min blockCounts_L2 (blocksInUse - directBlocks - level1Blocks) in
             if level2Blocks \<le> 0 then ret True
             else
               andThen (lift (readUint32LE i_block (13 * 4))) (\<lambda>p2.
               andThen (blocksL2AreSafe env p2 level2Blocks) (\<lambda>safeL2.
               if \<not> safeL2 then ret False
               else
                 let level3Blocks =
                       min blockCounts_L3 (blocksInUse - directBlocks - level1Blocks - level2Blocks)
                 in
                 if level3Blocks \<le> 0 then ret True
                 else
                   andThen (lift (readUint32LE i_block (14 * 4))) (\<lambda>p3.
                     blocksL3AreSafe env p3 level3Blocks)))))))"

definition dataIsSafe :: "nat \<Rightarrow> inspector \<Rightarrow> inode_info \<Rightarrow> bool run" where
  "dataIsSafe fuel env info =
     (let i_block = get_i_block info in
      andThen (lift (usesExtents info)) (\<lambda>extents.
        if extents then extentsAreSafe fuel env i_block
        else blocksAreSafe env info i_block))"

section \<open>The filesystem walker\<close>

record dir_entry =
  entry_inode :: int
  entry_name :: jsstring

text \<open>\<^verbatim>\<open>+match[1]\<close> for a group of decimal digits.\<close>

definition toNumber :: "jsstring \<Rightarrow> int" where
  "toNumber ds = foldl (\<lambda>acc c. acc * 10 + (int c - 48)) 0 ds"

text \<open>\<^verbatim>\<open>(\d+)\/\<close>: the digits at the head of the text, at least one, and the text after the
  slash that follows them.\<close>

definition digitsSlash :: "jsstring \<Rightarrow> (jsstring \<times> jsstring) option" where
  "digitsSlash s =
     (let ds = takeWhile isDigit s in
      case dropWhile isDigit s of
        [] \<Rightarrow> None
      | c # rest \<Rightarrow> if ds \<noteq> [] \<and> c = 47 then Some (ds, rest) else None)"

text \<open>
  A match of \<^verbatim>\<open>dirEntryRegex\<close>, \<^verbatim>\<open>/^\/(\d+)\/\d+\/\d+\/\d+\/([^\/]+)/gm\<close>, at a place where
  \<^verbatim>\<open>^\<close> holds: its two groups and the text after the match. The name runs up to the
  next slash or the end of the text, over line ends too.
\<close>

definition matchDirEntry :: "jsstring \<Rightarrow> (jsstring \<times> jsstring \<times> jsstring) option" where
  "matchDirEntry s =
     (case s of
        [] \<Rightarrow> None
      | c # s1 \<Rightarrow>
          if c \<noteq> 47 then None
          else
            (case digitsSlash s1 of None \<Rightarrow> None | Some (inode, s2) \<Rightarrow>
             case digitsSlash s2 of None \<Rightarrow> None | Some (d2, s3) \<Rightarrow>
             case digitsSlash s3 of None \<Rightarrow> None | Some (d3, s4) \<Rightarrow>
             case digitsSlash s4 of None \<Rightarrow> None | Some (d4, s5) \<Rightarrow>
               let name = takeWhile (\<lambda>c. c \<noteq> 47) s5 in
               if name = [] then None else Some (inode, name, dropWhile (\<lambda>c. c \<noteq> 47) s5)))"

lemma digitsSlash_shorter: "digitsSlash s = Some (ds, rest) \<Longrightarrow> length rest < length s"
proof -
  assume a: "digitsSlash s = Some (ds, rest)"
  then obtain c where "dropWhile isDigit s = c # rest"
    by (auto simp: digitsSlash_def Let_def split: list.splits if_splits)
  then have "length (dropWhile isDigit s) = Suc (length rest)" by simp
  with length_dropWhile_le [of isDigit s] show ?thesis by simp
qed

lemma matchDirEntry_shorter:
  assumes "matchDirEntry s = Some (inode, name, rest)"
  shows "length rest < length s"
proof -
  from assms obtain c s1 d1 s2 d2 s3 d3 s4 d4 s5 where s: "s = c # s1"
    and d: "digitsSlash s1 = Some (d1, s2)" "digitsSlash s2 = Some (d2, s3)"
      "digitsSlash s3 = Some (d3, s4)" "digitsSlash s4 = Some (d4, s5)"
    and r: "rest = dropWhile (\<lambda>c. c \<noteq> 47) s5"
    by (auto simp: matchDirEntry_def Let_def split: list.splits if_splits option.splits)
  from digitsSlash_shorter [OF d(1)] digitsSlash_shorter [OF d(2)]
    digitsSlash_shorter [OF d(3)] digitsSlash_shorter [OF d(4)]
  have "length s5 < length s1" by simp
  with length_dropWhile_le [of "\<lambda>c. c \<noteq> 47" s5] r s show ?thesis by simp
qed

text \<open>The loop \<^verbatim>\<open>while ((match = dirEntryRegex.exec(listing)))\<close> of
  \<^verbatim>\<open>getDirEntries\<close>, which leaves out the entries \<^verbatim>\<open>.\<close> and \<^verbatim>\<open>..\<close>.\<close>

function dirEntries_loop :: "bool \<Rightarrow> jsstring \<Rightarrow> dir_entry list" where
  "dirEntries_loop bol [] = []"
| "dirEntries_loop bol (c # cs) =
     (case (if bol then matchDirEntry (c # cs) else None) of
        None \<Rightarrow> dirEntries_loop (isLineTerminator c) cs
      | Some (inode, name, rest) \<Rightarrow>
          (if name = [46] \<or> name = [46, 46] then []
           else [\<lparr>entry_inode = toNumber inode, entry_name = name\<rparr>])
          @ dirEntries_loop (isLineTerminator (last name)) rest)"
  by pat_completeness auto
termination
  by (relation "measure (\<lambda>(bol, s). length s)")
     (auto split: if_splits dest: matchDirEntry_shorter)

definition getDirEntries :: "inspector \<Rightarrow> int \<Rightarrow> dir_entry list run" where
  "getDirEntries env inode =
     andThen (debugfsCmd env (Ls inode)) (\<lambda>listing. ret (dirEntries_loop True listing))"

definition ROOT_DIR_INODE :: int where
  "ROOT_DIR_INODE = 2"

text \<open>\<^verbatim>\<open>x ?? y\<close>: \<open>y\<close> when \<open>x\<close> is \<^verbatim>\<open>null\<close> or \<^verbatim>\<open>undefined\<close>, here \<open>None\<close>; a string,
  the empty one too, is neither.\<close>

definition nullish :: "jsstring option \<Rightarrow> jsstring \<Rightarrow> jsstring" where
  "nullish x y = (case x of None \<Rightarrow> y | Some v \<Rightarrow> v)"

text \<open>The callback of \<^verbatim>\<open>entries.filter\<close>: an entry whose inode record lies in a bad
  range is reported and dropped.\<close>

fun filterSafe :: "group_table \<Rightarrow> jsstring \<Rightarrow> dir_entry list \<Rightarrow> dir_entry list run" where
  "filterSafe tbl path [] = ret []"
| "filterSafe tbl path (entry # entries) =
     andThen (lift (inodeIsSafe tbl (entry_inode entry))) (\<lambda>safe.
     andThen (if \<not> safe then emit (Printed (js ''BAD '' @ path @ js ''/'' @ entry_name entry))
              else ret ()) (\<lambda>u.
     andThen (filterSafe tbl path entries) (\<lambda>rest.
       ret (if safe then entry # rest else rest))))"

text \<open>\<^verbatim>\<open>Promise.all\<close>: the values of all, or the first rejection.\<close>

fun promiseAll :: "(error + 'a) list \<Rightarrow> error + 'a list" where
  "promiseAll [] = Inr []"
| "promiseAll (Inl err # rs) = Inl err"
| "promiseAll (Inr x # rs) = onValue (\<lambda>xs. x # xs) (promiseAll rs)"

text \<open>
  \<^verbatim>\<open>Promise.all(safeEntries.map(async entry => new InodeInfo(..., await debugfsCmd(...))))\<close>:
  every callback runs up to its \<^verbatim>\<open>await\<close> when \<^verbatim>\<open>map\<close> calls it, so all the commands
  are written, in the order of the entries, before any reply is looked at.
\<close>

definition fetchInfos :: "inspector \<Rightarrow> dir_entry list \<Rightarrow> inode_info list run" where
  "fetchInfos env entries =
     Some (promiseAll (map (\<lambda>entry.
                          onValue (InodeInfo (entry_inode entry) (entry_name entry))
                            (debugfsReply env (Id (entry_inode entry)))) entries),
           map (\<lambda>entry. Sent (Id (entry_inode entry))) entries)"

text \<open>
  The loop \<^verbatim>\<open>for (const entryInfo of safeEntryInfos)\<close> of \<^verbatim>\<open>recurse\<close>, with the set
  \<^verbatim>\<open>inodesVisited\<close> passed along; \<open>descend\<close> is the call of \<^verbatim>\<open>recurse\<close> for a
  directory and \<open>safe\<close> the call of \<^verbatim>\<open>dataIsSafe\<close>.
\<close>

fun visitEntries ::
  "(jsstring \<Rightarrow> inode_info \<Rightarrow> int set \<Rightarrow> int set run) \<Rightarrow> (inode_info \<Rightarrow> bool run) \<Rightarrow>
   jsstring \<Rightarrow> inode_info list \<Rightarrow> int set \<Rightarrow> int set run" where
  "visitEntries descend safe path [] inodesVisited = ret inodesVisited"
| "visitEntries descend safe path (entryInfo # rest) inodesVisited =
     (if ino_id entryInfo \<in> inodesVisited then visitEntries descend safe path rest inodesVisited
      else
        let visited1 = insert (ino_id entryInfo) inodesVisited in
        andThen (lift (isFile entryInfo)) (\<lambda>file.
        andThen (if file then safe entryInfo else ret True) (\<lambda>dataSafe.
          if file \<and> \<not> dataSafe
          then andThen (emit (Printed (js ''BAD '' @ path @ js ''/'' @ ino_name entryInfo))) (\<lambda>u.
                 visitEntries descend safe path rest visited1)
          else
            andThen (lift (isDir entryInfo)) (\<lambda>dir.
              if dir
              then andThen (descend (path @ js ''/'' @ ino_name entryInfo) entryInfo visited1)
                     (\<lambda>visited2. visitEntries descend safe path rest visited2)
              else visitEntries descend safe path rest visited1))))"

text \<open>
  \<^verbatim>\<open>recurse\<close> calls itself for every directory below; on a listing that never ends
  (each directory naming a new one) so does the walk. The first argument bounds the
  depth of the calls, of \<^verbatim>\<open>recurse\<close> and of \<^verbatim>\<open>extentsAreSafe\<close>. The result is the set
  \<^verbatim>\<open>inodesVisited\<close> after the call.
\<close>

fun recurse ::
  "nat \<Rightarrow> inspector \<Rightarrow> group_table \<Rightarrow> jsstring \<Rightarrow> inode_info \<Rightarrow> int set \<Rightarrow> int set run" where
  "recurse 0 env tbl path inodeInfo inodesVisited = None"
| "recurse (Suc fuel) env tbl path inodeInfo inodesVisited =
     andThen (dataIsSafe (Suc fuel) env inodeInfo) (\<lambda>dataSafe.
       if \<not> dataSafe
       then andThen (emit (Printed (js ''BAD '' @ nullish (Some path) (js ''/'')))) (\<lambda>u.
              ret inodesVisited)
       else
         andThen (getDirEntries env (ino_id inodeInfo)) (\<lambda>entries.
         andThen (filterSafe tbl path entries) (\<lambda>safeEntries.
         andThen (fetchInfos env safeEntries) (\<lambda>safeEntryInfos.
           visitEntries (\<lambda>p info visited. recurse fuel env tbl p info visited)
             (\<lambda>info. dataIsSafe (Suc fuel) env info) path safeEntryInfos inodesVisited))))"

text \<open>The part of \<^verbatim>\<open>main\<close> that walks: the record of the root directory is fetched and
  \<^verbatim>\<open>recurse\<close> is called with the empty path and nothing visited.\<close>

definition main_walk :: "nat \<Rightarrow> inspector \<Rightarrow> group_table \<Rightarrow> int set run" where
  "main_walk fuel env startOfInodeTableByGroup =
     andThen (debugfsCmd env (Id ROOT_DIR_INODE)) (\<lambda>hex.
       recurse fuel env startOfInodeTableByGroup [] (InodeInfo ROOT_DIR_INODE [] hex) {})"

text \<open>The events of a computation that only fetches blocks: all of them are commands
  \<^verbatim>\<open>bd n\<close>.\<close>

definition isFetch :: "event \<Rightarrow> bool" where
  "isFetch ev = (case ev of Sent (Bd b) \<Rightarrow> True | _ \<Rightarrow> False)"

definition onlyFetches :: "'a run \<Rightarrow> bool" where
  "onlyFetches m = (case m of None \<Rightarrow> True | Some (r, evs) \<Rightarrow> list_all isFetch evs)"

section \<open>The session multiplexer\<close>

text \<open>
  \<^verbatim>\<open>expect(stream, prompt)\<close> keeps four variables: \<^verbatim>\<open>found\<close>, the responses that no
  call has taken yet; \<^verbatim>\<open>sinceLastMatch\<close>, the text after the last prompt;
  \<^verbatim>\<open>streamError\<close>; and \<^verbatim>\<open>promiseResolvers\<close>, the calls of \<^verbatim>\<open>next()\<close> that wait. Its
  handlers and methods run one at a time, each to its end, so each is a function on the
  state. A call of \<^verbatim>\<open>next()\<close> is named by its number, counting from 0; \<open>settled\<close>
  lists, in the order it happened, which call got which response or which error, and
  \<open>attached\<close> says whether the handlers are still registered on the stream. The text a
  chunk decodes to stands for the chunk.
\<close>

record expect_state =
  found :: "jsstring list"
  sinceLastMatch :: jsstring
  streamError :: "error option"
  promiseResolvers :: "nat list"
  attached :: bool
  calls :: nat
  settled :: "(nat \<times> (error + jsstring)) list"

definition expect :: expect_state where
  "expect = \<lparr>found = [], sinceLastMatch = [], streamError = None, promiseResolvers = [],
             attached = True, calls = 0, settled = []\<rparr>"

text \<open>\<^verbatim>\<open>s.indexOf(p)\<close>: the first place where \<open>p\<close> occurs in \<open>s\<close>; \<open>None\<close> is \<open>-1\<close>.\<close>

fun indexOf :: "jsstring \<Rightarrow> jsstring \<Rightarrow> nat option" where
  "indexOf [] p = (if p = [] then Some 0 else None)"
| "indexOf (c # cs) p =
     (if take (length p) (c # cs) = p then Some 0 else map_option Suc (indexOf cs p))"

text \<open>One turn of the loop of \<^verbatim>\<open>lookForPrompt\<close>: the response goes to the call that
  has waited longest, or into \<^verbatim>\<open>found\<close> when no call waits.\<close>

definition deliver :: "jsstring \<Rightarrow> expect_state \<Rightarrow> expect_state" where
  "deliver match st =
     (case promiseResolvers st of
        r # rs \<Rightarrow> st\<lparr>promiseResolvers := rs, settled := settled st @ [(r, Inr match)]\<rparr>
      | [] \<Rightarrow> st\<lparr>found := found st @ [match]\<rparr>)"

text \<open>The loop runs while the prompt occurs in \<^verbatim>\<open>sinceLastMatch\<close>. With the empty
  prompt it never ends: \<^verbatim>\<open>indexOf\<close> is 0 and the text stays as it is.\<close>

partial_function (option) lookForPrompt :: "jsstring \<Rightarrow> expect_state \<Rightarrow> expect_state option" where
  "lookForPrompt prompt st =
     (case indexOf (sinceLastMatch st) prompt of
        None \<Rightarrow> Some st
      | Some index \<Rightarrow>
          let match = take index (sinceLastMatch st);
              rest = drop (index + length prompt) (sinceLastMatch st)
          in lookForPrompt prompt ((deliver match st)\<lparr>sinceLastMatch := rest\<rparr>))"

definition rejectAll :: "error \<Rightarrow> expect_state \<Rightarrow> expect_state" where
  "rejectAll err st =
     st\<lparr>settled := settled st @ map (\<lambda>r. (r, Inl err)) (promiseResolvers st),
        promiseResolvers := []\<rparr>"

definition onData :: "jsstring \<Rightarrow> jsstring \<Rightarrow> expect_state \<Rightarrow> expect_state option" where
  "onData prompt chunk st = lookForPrompt prompt (st\<lparr>sinceLastMatch := sinceLastMatch st @ chunk\<rparr>)"

definition onError :: "error \<Rightarrow> expect_state \<Rightarrow> expect_state" where
  "onError err st = rejectAll err (st\<lparr>streamError := Some err\<rparr>)"

definition onEnd :: "expect_state \<Rightarrow> expect_state" where
  "onEnd st = rejectAll StreamEnded (st\<lparr>streamError := Some StreamEnded\<rparr>)"

text \<open>\<^verbatim>\<open>next()\<close> is an \<^verbatim>\<open>async\<close> function: up to its \<^verbatim>\<open>await\<close> it runs at once. It
  returns the oldest response of \<^verbatim>\<open>found\<close>, or throws \<^verbatim>\<open>streamError\<close>, or leaves a
  resolver and waits.\<close>

definition "next" :: "expect_state \<Rightarrow> expect_state" where
  "next st =
     (let me = calls st; st1 = st\<lparr>calls := Suc (calls st)\<rparr> in
      case found st of
        v # vs \<Rightarrow> st1\<lparr>found := vs, settled := settled st @ [(me, Inr v)]\<rparr>
      | [] \<Rightarrow>
          (case streamError st of
             Some err \<Rightarrow> st1\<lparr>settled := settled st @ [(me, Inl err)]\<rparr>
           | None \<Rightarrow> st1\<lparr>promiseResolvers := promiseResolvers st @ [me]\<rparr>))"

definition dispose :: "expect_state \<Rightarrow> expect_state" where
  "dispose st = rejectAll ExpectDisposed (st\<lparr>attached := False, streamError := Some ExpectDisposed\<rparr>)"

text \<open>What can happen to a multiplexer: the stream emits \<^verbatim>\<open>data\<close>, \<^verbatim>\<open>error\<close> or
  \<^verbatim>\<open>end\<close>, which reach the handlers while they are registered, or the program calls
  \<^verbatim>\<open>next()\<close> or \<^verbatim>\<open>dispose()\<close>.\<close>

datatype action = Data jsstring | Error | End | Next | Dispose

fun step :: "jsstring \<Rightarrow> expect_state \<Rightarrow> action \<Rightarrow> expect_state option" where
  "step prompt st (Data chunk) = (if attached st then onData prompt chunk st else Some st)"
| "step prompt st Error = Some (if attached st then onError StreamError st else st)"
| "step prompt st End = Some (if attached st then onEnd st else st)"
| "step prompt st Next = Some (next st)"
| "step prompt st Dispose = Some (dispose st)"

fun run :: "jsstring \<Rightarrow> action list \<Rightarrow> expect_state \<Rightarrow> expect_state option" where
  "run prompt [] st = Some st"
| "run prompt (a # as) st = (case step prompt st a of None \<Rightarrow> None | Some st' \<Rightarrow> run prompt as st')"

text \<open>
  The responses of a stream, as the specification has them: the text is cut at every
  occurrence of the prompt, from the left; the pieces before the prompts are the
  responses, in their order, and the piece after the last prompt is kept for later.
  \<open>acc\<close> is the part of the piece at hand that has been passed.
\<close>

function splitPrompt :: "jsstring \<Rightarrow> jsstring \<Rightarrow> jsstring \<Rightarrow> jsstring list \<times> jsstring" where
  "splitPrompt prompt acc [] = ([], acc)"
| "splitPrompt prompt acc (c # cs) =
     (if prompt \<noteq> [] \<and> take (length prompt) (c # cs) = prompt
      then (case splitPrompt prompt [] (drop (length prompt) (c # cs)) of
              (responses, rest) \<Rightarrow> (acc # responses, rest))
      else splitPrompt prompt (acc @ [c]) cs)"
  by pat_completeness auto
termination
  by (relation "measure (\<lambda>(prompt, acc, s). length s)") (auto simp: neq_Nil_conv)

definition dataOf :: "action list \<Rightarrow> jsstring" where
  "dataOf as = concat (map (\<lambda>a. case a of Data chunk \<Rightarrow> chunk | _ \<Rightarrow> []) as)"

definition nextCalls :: "action list \<Rightarrow> nat" where
  "nextCalls as = length (filter (\<lambda>a. a = Next) as)"

definition quiet :: "action \<Rightarrow> bool" where
  "quiet a = (case a of Data chunk \<Rightarrow> True | Next \<Rightarrow> True | _ \<Rightarrow> False)"

text \<open>The state after \<open>n\<close> calls of \<^verbatim>\<open>next()\<close> and the responses \<open>R\<close>, with \<open>rest\<close> left
  over: call \<open>k\<close> has response \<open>k\<close>, the responses beyond the calls are in \<^verbatim>\<open>found\<close>, the
  calls beyond the responses wait.\<close>

definition paired :: "nat \<Rightarrow> jsstring list \<Rightarrow> jsstring \<Rightarrow> expect_state" where
  "paired n R rest =
     \<lparr>found = drop n R, sinceLastMatch = rest, streamError = None,
      promiseResolvers = [length R..<n], attached = True, calls = n,
      settled = map (\<lambda>k. (k, Inr (R ! k))) [0..<min n (length R)]\<rparr>"

section \<open>The specification's reading of the block count\<close>

text \<open>
  The specification derives the block count of an inode from its count of 512-byte
  sectors, rounding up the quotient by the number of sectors in a block of 4096 bytes.
  In an inode record of ext2/3/4 the sector count is the 32-bit field \<^verbatim>\<open>i_blocks\<close> at
  byte \<open>0x1C\<close>; the field at byte \<open>0x04\<close> is \<^verbatim>\<open>i_size\<close>, the size in bytes.
\<close>

definition sectorsPerBlock :: int where
  "sectorsPerBlock = 4096 div 512"

definition blockCountInUse_spec :: "inode_info \<Rightarrow> error + int" where
  "blockCountInUse_spec info =
     onValue (\<lambda>sectors. ceilDiv sectors sectorsPerBlock) (readUint32LE (ino_buf info) 0x1C)"

section \<open>The specification's reading of the indirect walk\<close>

text \<open>
  The specification has the walk of an indirect block consult only as many entries as
  blocks are still needed. Below, \<open>blk b\<close> is the decoded content of block \<open>b\<close>, \<open>needed\<close>
  the number of blocks a walk is asked for, and \<open>cap\<close> the number of blocks that one entry
  of the walked block stands for: 1024 in a double-indirect block, \<open>1024\<^sup>2\<close> in a
  triple-indirect block. The walk consults the first \<open>\<lceil>needed / cap\<rceil>\<close> entries, and below
  entry \<open>i\<close> the blocks still needed are \<open>needed - cap * i\<close>, at most \<open>cap\<close>.
\<close>

definition entriesConsulted :: "int \<Rightarrow> int \<Rightarrow> nat" where
  "entriesConsulted cap needed = nat (ceilDiv needed cap)"

definition stillNeeded :: "int \<Rightarrow> int \<Rightarrow> nat \<Rightarrow> int" where
  "stillNeeded cap needed i = min cap (needed - cap * int i)"

text \<open>The entries a walk gets to when it stops at the first unsafe one: the safe
  entries before it, and that one.\<close>

definition entriesReached :: "(nat \<Rightarrow> bool) \<Rightarrow> nat \<Rightarrow> nat list" where
  "entriesReached ok m = takeWhile ok [0..<m] @ take 1 (dropWhile ok [0..<m])"

text \<open>A single-indirect block is safe when its first \<open>needed\<close> entries are safe blocks.\<close>

definition level1Safe :: "(int \<Rightarrow> buffer) \<Rightarrow> int \<Rightarrow> int \<Rightarrow> bool" where
  "level1Safe blk p needed = (\<forall>k \<in> {0..<nat needed}. blockIsSafe (u32at (blk p) (k * 4)))"

text \<open>Entry \<open>i\<close> of a double-indirect block is safe when the single-indirect block it
  names is a safe block and is safe in the blocks still needed. The walk fetches the
  double-indirect block, and then the block named by every entry it gets to, unless
  that block is itself unsafe.\<close>

definition level2EntrySafe :: "(int \<Rightarrow> buffer) \<Rightarrow> int \<Rightarrow> int \<Rightarrow> nat \<Rightarrow> bool" where
  "level2EntrySafe blk p needed i =
     (blockIsSafe (u32at (blk p) (i * 4))
      \<and> level1Safe blk (u32at (blk p) (i * 4)) (stillNeeded 1024 needed i))"

definition level2Safe :: "(int \<Rightarrow> buffer) \<Rightarrow> int \<Rightarrow> int \<Rightarrow> bool" where
  "level2Safe blk p needed =
     (\<forall>i \<in> {0..<entriesConsulted 1024 needed}. level2EntrySafe blk p needed i)"

definition level2Fetches :: "(int \<Rightarrow> buffer) \<Rightarrow> int \<Rightarrow> int \<Rightarrow> event list" where
  "level2Fetches blk p needed =
     Sent (Bd p) #
     concat (map (\<lambda>i. if blockIsSafe (u32at (blk p) (i * 4))
                       then [Sent (Bd (u32at (blk p) (i * 4)))] else [])
               (entriesReached (level2EntrySafe blk p needed) (entriesConsulted 1024 needed)))"

text \<open>The same one level up: entry \<open>i\<close> of a triple-indirect block names a
  double-indirect block, which is walked for the blocks still needed.\<close>

definition level3EntrySafe :: "(int \<Rightarrow> buffer) \<Rightarrow> int \<Rightarrow> int \<Rightarrow> nat \<Rightarrow> bool" where
  "level3EntrySafe blk p needed i =
     (blockIsSafe (u32at (blk p) (i * 4))
      \<and> level2Safe blk (u32at (blk p) (i * 4)) (stillNeeded (1024 ^ 2) needed i))"

definition level3Safe :: "(int \<Rightarrow> buffer) \<Rightarrow> int \<Rightarrow> int \<Rightarrow> bool" where
  "level3Safe blk p needed =
     (\<forall>i \<in> {0..<entriesConsulted (1024 ^ 2) needed}. level3EntrySafe blk p needed i)"

definition level3Fetches :: "(int \<Rightarrow> buffer) \<Rightarrow> int \<Rightarrow> int \<Rightarrow> event list" where
  "level3Fetches blk p needed =
     Sent (Bd p) #
     concat (map (\<lambda>i. if blockIsSafe (u32at (blk p) (i * 4))
                       then level2Fetches blk (u32at (blk p) (i * 4)) (stillNeeded (1024 ^ 2) needed i)
                       else [])
               (entriesReached (level3EntrySafe blk p needed) (entriesConsulted (1024 ^ 2) needed)))"

section \<open>Example inputs\<close>

definition example_table :: group_table where
  "example_table = [0 \<mapsto> 4096, 1 \<mapsto> 134217728]"

text \<open>A reply to \<^verbatim>\<open>bd 7\<close>: the echo of the command, a line for bytes 0 to 15 with
  two words that are no hexadecimal numbers, and a line for bytes 256 to 271.\<close>

definition example_echo :: jsstring where
  "example_echo = js '' bd 7''"

definition example_far_line :: jsstring where
  "example_far_line = js ''0400  1111 1111 1111 1111 1111 1111 1111 1111''"

definition example_dump :: jsstring where
  "example_dump =
     js ''0000  ffa1 0x00 zz10 0000 0000 0000 0000 0000'' @ [13, 10] @ example_far_line @ [10]"

text \<open>The dump of an inode record: a regular file (mode \<open>0x81a4\<close>) whose 32-bit field at
  byte 4 is 16 and whose 32-bit field at byte 28 is 16.\<close>

definition example_inode_hex :: jsstring where
  "example_inode_hex =
     js ''0000  a481 0000 1000 0000 0000 0000 0000 0000'' @ [10]
     @ js ''0020  0000 0000 0000 0000 0000 0000 1000 0000'' @ [10]"

definition example_inode :: inode_info where
  "example_inode = InodeInfo 12 (js ''notes.txt'') example_inode_hex"





text \<open>
  The record of a regular file of 53248 bytes, 13 blocks, without the extents flag: its
  direct pointers are the blocks 100 to 111, its single-indirect pointer is block 112.
  The inspector \<open>example_indirect_inspector\<close> answers \<^verbatim>\<open>bd 112\<close> with a block whose
  first entry is block 113, and has no other reply. \<open>example_inode_big\<close> is the record
  of a file of 5 MiB, 1280 blocks.
\<close>

definition example_inode13_hex :: jsstring where
  "example_inode13_hex =
     js ''0000  a481 0000 00d0 0000 0000 0000 0000 0000'' @ [10]
     @ js ''0040  0000 0000 0000 0000 6400 0000 6500 0000'' @ [10]
     @ js ''0060  6600 0000 6700 0000 6800 0000 6900 0000'' @ [10]
     @ js ''0100  6a00 0000 6b00 0000 6c00 0000 6d00 0000'' @ [10]
     @ js ''0120  6e00 0000 6f00 0000 7000 0000 0000 0000'' @ [10]"

definition example_inode13 :: inode_info where
  "example_inode13 = InodeInfo 13 (js ''data.bin'') example_inode13_hex"

definition example_indirect_reply :: jsstring where
  "example_indirect_reply =
     js '' bd 112'' @ [10]
     @ js ''0000  7100 0000 0000 0000 0000 0000 0000 0000'' @ [10]"

definition example_indirect_inspector :: inspector where
  "example_indirect_inspector c =
     (if c = Bd 112 then Inr example_indirect_reply else Inl StreamEnded)"

definition example_inode_big :: inode_info where
  "example_inode_big =
     InodeInfo 14 (js ''big.bin'') (js ''0000  a481 0000 0000 5000 0000 0000 0000 0000'' @ [10])"

text \<open>
  Two inspectors that answer every fetch of a block. For \<open>example_safe_blocks\<close> every
  block holds 113 in its first entry and 0 in the others. For \<open>example_mixed_blocks\<close>
  block 113 is another: its first entry is block 37878237, inside the fifth bad range.
\<close>

definition example_block_dump :: jsstring where
  "example_block_dump = js ''0000  7100 0000 0000 0000 0000 0000 0000 0000'' @ [10]"

definition example_bad_block_dump :: jsstring where
  "example_bad_block_dump = js ''0000  ddf9 4102 0000 0000 0000 0000 0000 0000'' @ [10]"

definition example_safe_blocks :: inspector where
  "example_safe_blocks c =
     (case c of Bd b \<Rightarrow> Inr (js '' bd'' @ [10] @ example_block_dump) | _ \<Rightarrow> Inl StreamEnded)"

definition example_mixed_blocks :: inspector where
  "example_mixed_blocks c =
     (case c of
        Bd b \<Rightarrow> Inr (js '' bd'' @ [10]
                     @ (if b = 113 then example_bad_block_dump else example_block_dump))
      | _ \<Rightarrow> Inl StreamEnded)"

text \<open>A session: two calls of \<^verbatim>\<open>next()\<close>, then the stream brings three responses in two
  chunks, the second prompt cut in two, then two more calls.\<close>

definition example_prompt :: jsstring where
  "example_prompt = js ''debugfs:''"

definition example_actions :: "action list" where
  "example_actions =
     [Next, Next, Data (js ''reply B debugfs:reply A deb''), Data (js ''ugfs:extra debugfs:tail''),
      Next, Next]"

text \<open>
  A small file system. The root directory (inode 2, mode \<open>0x41ed\<close>) has one extent, block
  5000, and lists itself, its parent, the symbolic link \<^verbatim>\<open>link\<close> (inode 12, mode
  \<open>0xa1ff\<close>), whose target is stored in block 37878237, inside the fifth bad range, and
  the block device \<^verbatim>\<open>sda\<close> (inode 13, mode \<open>0x61b0\<close>). \<open>example_fs\<close> answers the commands
  for it. \<open>example_fs_bad_root\<close> answers \<^verbatim>\<open>id <2>\<close> with a root directory whose extent
  is block 37878237. With \<open>example_bad_table\<close> the inode table of group 0 starts at
  the first bad range, so that every inode record of the group lies in it.
\<close>

definition example_root_hex :: jsstring where
  "example_root_hex =
     js ''0000  ed41 0000 0010 0000 0000 0000 0000 0000'' @ [10]
     @ js ''0040  0000 0800 0000 0000 0af3 0100 0400 0000'' @ [10]
     @ js ''0060  0000 0000 0000 0000 0100 0000 8813 0000'' @ [10]"

definition example_bad_root_hex :: jsstring where
  "example_bad_root_hex =
     js ''0000  ed41 0000 0010 0000 0000 0000 0000 0000'' @ [10]
     @ js ''0040  0000 0800 0000 0000 0af3 0100 0400 0000'' @ [10]
     @ js ''0060  0000 0000 0000 0000 0100 0000 ddf9 4102'' @ [10]"

definition example_link_hex :: jsstring where
  "example_link_hex =
     js ''0000  ffa1 0000 6400 0000 0000 0000 0000 0000'' @ [10]
     @ js ''0040  0000 0800 0000 0000 0af3 0100 0400 0000'' @ [10]
     @ js ''0060  0000 0000 0000 0000 0100 0000 ddf9 4102'' @ [10]"

definition example_device_hex :: jsstring where
  "example_device_hex =
     js ''0000  b061 0000 0000 0000 0000 0000 0000 0000'' @ [10]"

definition example_listing :: jsstring where
  "example_listing =
     js ''/2/040755/0/0/./'' @ [10]
     @ js ''/2/040755/0/0/../'' @ [10]
     @ js ''/12/120777/0/0/link/'' @ [10]
     @ js ''/13/060660/0/6/sda/'' @ [10]"

definition example_fs :: inspector where
  "example_fs c =
     (if c = Id 2 then Inr (js '' id <2>'' @ [10] @ example_root_hex)
      else if c = Ls 2 then Inr (js '' ls -p <2>'' @ [10] @ example_listing)
      else if c = Id 12 then Inr (js '' id <12>'' @ [10] @ example_link_hex)
      else if c = Id 13 then Inr (js '' id <13>'' @ [10] @ example_device_hex)
      else if c = Ls 13 then Inr (js '' ls -p <13>'' @ [10])
      else Inl StreamEnded)"

definition example_fs_bad_root :: inspector where
  "example_fs_bad_root c =
     (if c = Id 2 then Inr (js '' id <2>'' @ [10] @ example_bad_root_hex) else Inl StreamEnded)"

definition example_bad_table :: group_table where
  "example_bad_table = [0 \<mapsto> 0x23bad54000]"

definition example_link :: inode_info where
  "example_link = InodeInfo 12 (js ''link'') example_link_hex"

definition example_device :: inode_info where
  "example_device = InodeInfo 13 (js ''sda'') example_device_hex"

section \<open>Properties\<close>

lemma rangeIsSafe_loop_iff:
  "rangeIsSafe_loop rs s e \<longleftrightarrow> \<not> (\<exists>r \<in> set rs. e > range_start r \<and> s < range_start r + range_length r)"
  by (induction rs) auto

text \<open>
  C1. For every interval \<open>[s, e)\<close> the query \<^verbatim>\<open>rangeIsSafe\<close> answers unsafe exactly when
  some configured bad range \<open>r\<close> has \<open>e > start r\<close> and \<open>s < start r + length r\<close>; the
  same holds of the scan over any list of ranges. The query is a function of its two
  arguments and the fixed list only: it reads and writes no state.
\<close>

theorem rangeIsSafe_overlap:
  "((\<not> rangeIsSafe s e) = (\<exists>r \<in> set badRanges. e > range_start r \<and> s < range_start r + range_length r))
   \<and> ((\<not> rangeIsSafe_loop rs s e) = (\<exists>r \<in> set rs. e > range_start r \<and> s < range_start r + range_length r))"
  by (simp add: rangeIsSafe_def rangeIsSafe_loop_iff)

theorem rangeIsSafe_overlap_witness:
  "\<not> rangeIsSafe 0x23bad53000 0x23bad54001 \<and> rangeIsSafe 0x23bad53000 0x23bad54000
   \<and> (\<exists>r \<in> set badRanges. 0x23bad54001 > range_start r \<and> 0x23bad53000 < range_start r + range_length r)
   \<and> \<not> (\<exists>r \<in> set badRanges. 0x23bad54000 > range_start r \<and> 0x23bad53000 < range_start r + range_length r)"
  using rangeIsSafe_overlap [of "0x23bad53000" "0x23bad54001" "[]"]
        rangeIsSafe_overlap [of "0x23bad53000" "0x23bad54000" "[]"]
  by (simp add: badRanges_def)

lemma js_rem_nonneg: "0 \<le> a \<Longrightarrow> 0 < b \<Longrightarrow> js_rem a b = a mod b"
  by (cases "a = 0") (simp_all add: js_rem_def)

text \<open>
  C7. For every inode number \<open>n \<ge> 1\<close>, \<^verbatim>\<open>getAddressOfInode\<close> returns the table offset
  of group \<open>(n - 1) div 8028\<close> plus \<open>((n - 1) mod 8028) * 256\<close> when the map has that
  group, and throws when it has not. Inode 1 is at the start of group 0's table,
  inode 8028 at its record 8027, inode 8029 at the start of group 1's table.
\<close>

theorem getAddressOfInode_formula:
  "1 \<le> n \<Longrightarrow>
     getAddressOfInode tbl n =
       (case tbl ((n - 1) div 8028) of
          None \<Rightarrow> Inl (GroupMissing ((n - 1) div 8028))
        | Some off \<Rightarrow> Inr (off + ((n - 1) mod 8028) * 256))
     \<and> (tbl 0 = Some t0 \<longrightarrow> getAddressOfInode tbl 1 = Inr (t0 + 0)
          \<and> getAddressOfInode tbl 8028 = Inr (t0 + 8027 * 256))
     \<and> (tbl 1 = Some t1 \<longrightarrow> getAddressOfInode tbl 8029 = Inr (t1 + 0))"
  by (simp add: getAddressOfInode_def js_rem_nonneg Let_def)

theorem getAddressOfInode_formula_witness:
  "(1::int) \<le> 16057
   \<and> example_table 0 = Some 4096
   \<and> example_table 1 = Some 134217728
   \<and> getAddressOfInode example_table 16057 = Inl (GroupMissing 2)
   \<and> getAddressOfInode example_table 1 = Inr 4096
   \<and> getAddressOfInode example_table 8028 = Inr (4096 + 8027 * 256)
   \<and> getAddressOfInode example_table 8029 = Inr 134217728"
  using getAddressOfInode_formula [of 16057 example_table 4096 134217728]
  by (simp add: example_table_def)

subsection \<open>The hex-dump decoder\<close>

lemma length_storeByte: "length (storeByte b i v) = length b"
  by (simp add: storeByte_def)

lemma length_foldl_storeByte:
  "length (foldl (\<lambda>buf i. storeByte buf (f i) (g i)) b xs) = length b"
  by (induction xs arbitrary: b) (simp_all add: length_storeByte)

lemma length_storeHexLine: "length (storeHexLine m b) = length b"
  by (simp add: storeHexLine_def length_foldl_storeByte split: option.splits)

lemma length_parseHex_loop: "length (parseHex_loop bol s b) = length b"
  by (induction bol s b rule: parseHex_loop.induct) (simp_all add: length_storeHexLine)

lemma length_parseHex: "length (parseHex sz hex) = sz"
  by (simp add: parseHex_def length_parseHex_loop)

lemma nth_storeByte_other: "int j \<noteq> i \<Longrightarrow> storeByte b i v ! j = b ! j"
  by (auto simp: storeByte_def)

lemma nth_foldl_storeByte_other:
  "\<forall>i \<in> set xs. f i \<noteq> int j \<Longrightarrow> foldl (\<lambda>buf i. storeByte buf (f i) (g i)) b xs ! j = b ! j"
  by (induction xs arbitrary: b) (auto simp: nth_storeByte_other)

lemma nth_storeHexLine_other: "\<not> coversByte m j \<Longrightarrow> storeHexLine m b ! j = b ! j"
  unfolding storeHexLine_def coversByte_def
  by (cases "hexLineStart m") (auto intro!: nth_foldl_storeByte_other)

lemma pattern_no_terminator:
  "p \<in> set parseHexPattern \<Longrightarrow> p c \<Longrightarrow> \<not> isLineTerminator c"
  by (auto simp: parseHexPattern_def isLineTerminator_def isOctalDigit_def isSpace_def
      isWordChar_def isDigit_def)

lemma length_parseHexPattern: "length parseHexPattern = 45"
  by (simp add: parseHexPattern_def eval_nat_numeral)

lemma matchesAt_take:
  "matchesAt pat s \<Longrightarrow> length pat \<le> length s \<and> matchesAt pat (take (length pat) s)"
  by (induction pat s rule: matchesAt.induct) simp_all

lemma matchesAt_prefix:
  "matchesAt pat (take (length pat) s) \<Longrightarrow> length pat \<le> length s \<Longrightarrow> matchesAt pat s"
  by (induction pat s rule: matchesAt.induct) simp_all

lemma matchesAt_class:
  "matchesAt pat s \<Longrightarrow> c \<in> set (take (length pat) s) \<Longrightarrow> \<exists>p \<in> set pat. p c"
  by (induction pat s rule: matchesAt.induct) auto

lemma matchesAt_no_terminator:
  assumes "matchesAt parseHexPattern s" and "c \<in> set (take 45 s)"
  shows "\<not> isLineTerminator c"
  using matchesAt_class [OF assms(1)] assms(2) pattern_no_terminator
  by (auto simp: length_parseHexPattern)

lemma matchingLines_skip:
  "\<forall>c \<in> set (take k s). \<not> isLineTerminator c \<Longrightarrow>
     matchingLines False s = matchingLines False (drop k s)"
proof (induction k arbitrary: s)
  case 0
  then show ?case by simp
next
  case (Suc k)
  then show ?case by (cases s) auto
qed

lemma parseHex_loop_lines:
  "parseHex_loop bol s b = foldl (\<lambda>buf m. storeHexLine m buf) b (matchingLines bol s)"
proof (induction bol s b rule: parseHex_loop.induct)
  case (1 bol buffer)
  then show ?case by simp
next
  case (2 bol c cs buffer)
  show ?case
  proof (cases "bol \<and> matchesAt parseHexPattern (c # cs)")
    case True
    then have nt: "\<forall>x \<in> set (take 45 (c # cs)). \<not> isLineTerminator x"
      using matchesAt_no_terminator by blast
    then have c: "\<not> isLineTerminator c" by simp
    have "matchingLines False (c # cs) = matchingLines False (drop 45 (c # cs))"
      using nt by (rule matchingLines_skip)
    with c have "matchingLines (isLineTerminator c) cs = matchingLines False (drop 45 (c # cs))"
      by simp
    with True 2 show ?thesis by simp
  next
    case False
    with 2 show ?thesis by auto
  qed
qed

lemma nth_foldl_storeHexLine_other:
  "\<forall>m \<in> set ms. \<not> coversByte m j \<Longrightarrow> foldl (\<lambda>buf m. storeHexLine m buf) b ms ! j = b ! j"
  by (induction ms arbitrary: b) (simp_all add: nth_storeHexLine_other)

lemma matchingLines_junk_line:
  "\<forall>c \<in> set l. \<not> isLineTerminator c \<Longrightarrow> isLineTerminator t \<Longrightarrow>
     matchingLines False (l @ t # rest) = matchingLines True rest"
  by (induction l) simp_all

lemma matchesAt_line:
  assumes "matchesAt parseHexPattern (l @ t # rest)" and "isLineTerminator t"
  shows "matchesAt parseHexPattern l"
proof -
  have len: "45 \<le> length l"
  proof (rule ccontr)
    assume "\<not> 45 \<le> length l"
    then have "t \<in> set (take 45 (l @ t # rest))"
      by (simp add: take_Cons') 
    with assms show False using matchesAt_no_terminator by blast
  qed
  then have "take 45 (l @ t # rest) = take 45 l" by simp
  with matchesAt_take [OF assms(1)] have "matchesAt parseHexPattern (take 45 l)"
    by (simp add: length_parseHexPattern)
  with len show ?thesis
    using matchesAt_prefix [of parseHexPattern l] by (simp add: length_parseHexPattern)
qed

lemma parseHex_skips_line:
  assumes "\<forall>c \<in> set l. \<not> isLineTerminator c" and "isLineTerminator t"
    and "\<not> matchesAt parseHexPattern l"
  shows "parseHex sz (l @ t # rest) = parseHex sz rest"
proof -
  have nm: "\<not> matchesAt parseHexPattern (l @ t # rest)"
    using assms matchesAt_line by blast
  have "matchingLines True (l @ t # rest) = matchingLines True rest"
  proof (cases l)
    case Nil
    with assms nm show ?thesis by simp
  next
    case (Cons c cs)
    with assms nm matchingLines_junk_line [of cs t rest] show ?thesis by simp
  qed
  then show ?thesis by (simp add: parseHex_def parseHex_loop_lines)
qed

text \<open>
  C10. \<^verbatim>\<open>parseHex\<close> is a total function with no failing branch. Its buffer has the
  size asked for; it is the zero buffer with the lines of the dump stored one after the
  other, so a byte that no line of the dump covers stays zero; a line that does not
  match the pattern (one that holds no line terminator, before a terminator) changes
  nothing; and when every line of the dump has its offset at or beyond the size, all
  its stores are dropped and the buffer stays the zero buffer of that size.
\<close>

theorem parseHex_total:
  "length (parseHex sz hex) = sz
   \<and> parseHex sz hex = foldl (\<lambda>buf m. storeHexLine m buf) (replicate sz 0) (matchingLines True hex)
   \<and> (j < sz \<and> (\<forall>m \<in> set (matchingLines True hex). \<not> coversByte m j) \<longrightarrow> parseHex sz hex ! j = 0)
   \<and> ((\<forall>c \<in> set l. \<not> isLineTerminator c) \<and> isLineTerminator t \<and> \<not> matchesAt parseHexPattern l
        \<longrightarrow> parseHex sz (l @ t # rest) = parseHex sz rest)
   \<and> ((\<forall>m \<in> set (matchingLines True hex).
          case hexLineStart m of None \<Rightarrow> True | Some first \<Rightarrow> int sz \<le> first)
        \<longrightarrow> parseHex sz hex = replicate sz 0)"
proof (intro conjI impI)
  show "length (parseHex sz hex) = sz" by (rule length_parseHex)
  show "parseHex sz hex = foldl (\<lambda>buf m. storeHexLine m buf) (replicate sz 0) (matchingLines True hex)"
    by (simp add: parseHex_def parseHex_loop_lines)
  show "parseHex sz hex ! j = 0"
    if "j < sz \<and> (\<forall>m \<in> set (matchingLines True hex). \<not> coversByte m j)"
    using that by (simp add: parseHex_def parseHex_loop_lines nth_foldl_storeHexLine_other)
  show "parseHex sz (l @ t # rest) = parseHex sz rest"
    if "(\<forall>c \<in> set l. \<not> isLineTerminator c) \<and> isLineTerminator t \<and> \<not> matchesAt parseHexPattern l"
    using that parseHex_skips_line by blast
  show "parseHex sz hex = replicate sz 0"
    if h: "\<forall>m \<in> set (matchingLines True hex).
             case hexLineStart m of None \<Rightarrow> True | Some first \<Rightarrow> int sz \<le> first"
  proof (rule nth_equalityI)
    show "length (parseHex sz hex) = length (replicate sz (0 :: 8 word))"
      by (simp add: length_parseHex)
    fix i assume "i < length (parseHex sz hex)"
    then have i: "i < sz" by (simp add: length_parseHex)
    have "\<forall>m \<in> set (matchingLines True hex). \<not> coversByte m i"
      using h i by (auto simp: coversByte_def split: option.splits)
    with i show "parseHex sz hex ! i = replicate sz 0 ! i"
      by (simp add: parseHex_def parseHex_loop_lines nth_foldl_storeHexLine_other)
  qed
qed

lemma parseHexPattern_unfold:
  "parseHexPattern =
    [isOctalDigit, isOctalDigit, isOctalDigit, isOctalDigit, isSpace, isSpace,
     isWordChar, isWordChar, isWordChar, isWordChar, isSpace,
     isWordChar, isWordChar, isWordChar, isWordChar, isSpace,
     isWordChar, isWordChar, isWordChar, isWordChar, isSpace,
     isWordChar, isWordChar, isWordChar, isWordChar, isSpace,
     isWordChar, isWordChar, isWordChar, isWordChar, isSpace,
     isWordChar, isWordChar, isWordChar, isWordChar, isSpace,
     isWordChar, isWordChar, isWordChar, isWordChar, isSpace,
     isWordChar, isWordChar, isWordChar, isWordChar]"
  by (simp add: parseHexPattern_def eval_nat_numeral)

lemma upt_unroll: "[m..<numeral k] = (if m < numeral k then m # [Suc m..<numeral k] else [])"
  by (rule upt_rec)

lemmas chr_defs =
  isLineTerminator_def isOctalDigit_def isSpace_def isWordChar_def isDigit_def digitValue_def

lemmas hex_eval =
  parseHexPattern_unfold storeHexLine_def hexLineStart_def hexGroup_def parseInt_def
  storeByte_def coversByte_def chr_defs

theorem parseHex_total_witness:
  "(16 < (20::nat) \<and> list_all (\<lambda>m. \<not> coversByte m 16) (matchingLines True example_dump))
   \<and> parseHex 20 example_dump ! 16 = 0
   \<and> length (parseHex 20 example_dump) = 20
   \<and> (list_all (\<lambda>c. \<not> isLineTerminator c) example_echo \<and> isLineTerminator 10
        \<and> \<not> matchesAt parseHexPattern example_echo)
   \<and> parseHex 20 (example_echo @ 10 # example_dump) = parseHex 20 example_dump
   \<and> list_all (\<lambda>m. case hexLineStart m of None \<Rightarrow> True | Some first \<Rightarrow> int 20 \<le> first)
        (matchingLines True example_far_line)
   \<and> parseHex 20 example_far_line = replicate 20 0"
proof -
  have h1: "16 < (20::nat) \<and> (\<forall>m \<in> set (matchingLines True example_dump). \<not> coversByte m 16)"
    by (simp add: hex_eval example_dump_def example_far_line_def js_def)
  have h2: "(\<forall>c \<in> set example_echo. \<not> isLineTerminator c) \<and> isLineTerminator 10
        \<and> \<not> matchesAt parseHexPattern example_echo"
    by (simp add: hex_eval example_echo_def js_def)
  have h3: "\<forall>m \<in> set (matchingLines True example_far_line).
          case hexLineStart m of None \<Rightarrow> True | Some first \<Rightarrow> int 20 \<le> first"
    by (simp add: hex_eval example_far_line_def js_def)
  from h1 h2 h3
    parseHex_total [of 20 example_dump 16 example_echo 10 example_dump]
    parseHex_total [of 20 example_far_line 16 example_echo 10 example_dump]
  show ?thesis unfolding list_all_iff by blast
qed

subsection \<open>Inode records\<close>

lemma uint_byte_bounds: "0 \<le> uint (b :: 8 word) \<and> uint b \<le> 255"
  using uint_bounded [of b] by simp

lemma u16at_bounds: "0 \<le> u16at buf off \<and> u16at buf off < 65536"
  using uint_byte_bounds [of "buf ! off"] uint_byte_bounds [of "buf ! (off + 1)"]
  by (simp add: u16at_def)

lemma u32at_bounds: "0 \<le> u32at buf off \<and> u32at buf off < 4294967296"
  using uint_byte_bounds [of "buf ! off"] uint_byte_bounds [of "buf ! (off + 1)"]
    uint_byte_bounds [of "buf ! (off + 2)"] uint_byte_bounds [of "buf ! (off + 3)"]
  by (simp add: u32at_def)

lemma length_ino_buf: "length (ino_buf (InodeInfo i name hex)) = 256"
  by (simp add: InodeInfo_def length_parseHex)

lemmas example_inode_eval =
  example_inode_def example_inode_hex_def InodeInfo_def parseHex_def js_def hex_eval upt_unroll

lemma example_inode_size: "u32at (ino_buf example_inode) 4 = 16"
  by (simp add: example_inode_eval u32at_def)

lemma example_inode_sectors: "u32at (ino_buf example_inode) 28 = 16"
  by (simp add: example_inode_eval u32at_def)

text \<open>
  C2, as stated, fails. For the inode record \<open>example_inode\<close>, whose field at byte 4
  and whose sector count at byte 28 are both 16, the code gives 1 block in use; the
  ceiling of 16 sectors by 8 sectors in a block is 2, whichever of the two fields is
  taken for the sector count.
\<close>

theorem blocksInUse_sectors_counterexample:
  "blocksInUse example_inode = Inr 1
   \<and> blockCountInUse_spec example_inode = Inr 2
   \<and> onValue (\<lambda>sectors. ceilDiv sectors sectorsPerBlock) (readUint32LE (ino_buf example_inode) 0x04)
       = Inr 2
   \<and> blocksInUse example_inode \<noteq> blockCountInUse_spec example_inode"
  using example_inode_size example_inode_sectors length_ino_buf [of 12 "js ''notes.txt''" example_inode_hex]
  by (simp add: blocksInUse_def blockCountInUse_spec_def sectorsPerBlock_def onValue_def
      readUint32LE_def ceilDiv_def example_inode_def)

text \<open>
  C2, amended. For every decoded inode record, \<^verbatim>\<open>blocksInUse\<close> is the ceiling of the
  32-bit little-endian field at byte 4 of the record (the size of the file in bytes)
  divided by 4096, the bytes in a block; the read never fails, and the result is at
  most \<open>2^20\<close>.
\<close>

theorem blocksInUse_from_size:
  "blocksInUse (InodeInfo i name hex) = Inr ((u32at (parseHex 256 hex) 4 + 4095) div 4096)
   \<and> (u32at (parseHex 256 hex) 4 + 4095) div 4096 = ceilDiv (u32at (parseHex 256 hex) 4) 4096
   \<and> readUint32LE (ino_buf (InodeInfo i name hex)) 4 = Inr (u32at (parseHex 256 hex) 4)
   \<and> 0 \<le> (u32at (parseHex 256 hex) 4 + 4095) div 4096
   \<and> (u32at (parseHex 256 hex) 4 + 4095) div 4096 \<le> 1048576"
proof -
  have b: "0 \<le> u32at (parseHex 256 hex) 4 \<and> u32at (parseHex 256 hex) 4 < 4294967296"
    by (rule u32at_bounds)
  then have "0 \<le> (u32at (parseHex 256 hex) 4 + 4095) div 4096"
    and "(u32at (parseHex 256 hex) 4 + 4095) div 4096 \<le> 1048576"
    by linarith+
  then show ?thesis
    by (simp add: blocksInUse_def onValue_def readUint32LE_def ceilDiv_def InodeInfo_def
        length_parseHex add.commute)
qed

subsection \<open>Computations\<close>

lemma andThen_ret [simp]: "andThen (ret x) f = f x"
  by (simp add: andThen_def ret_def split: option.splits prod.splits)

lemma andThen_lift_Inr [simp]: "andThen (lift (Inr x)) f = f x"
  by (simp add: andThen_def lift_def split: option.splits prod.splits)

lemma andThen_lift_Inl [simp]: "andThen (lift (Inl e)) f = Some (Inl e, [])"
  by (simp add: andThen_def lift_def)

lemma andThen_Some_Inr [simp]:
  "andThen (Some (Inr x, evs)) f = (case f x of None \<Rightarrow> None | Some (r, evs') \<Rightarrow> Some (r, evs @ evs'))"
  by (simp add: andThen_def)

lemma andThen_Some_Inl [simp]: "andThen (Some (Inl e, evs)) f = Some (Inl e, evs)"
  by (simp add: andThen_def)

lemma andThen_None [simp]: "andThen None f = None"
  by (simp add: andThen_def)

text \<open>The indices a loop visits: up to and including the first unsafe one.\<close>

lemma allSafe_all:
  "\<forall>i \<in> set xs. body i = Some (Inr (b i), evs i) \<Longrightarrow>
     allSafe body xs =
       Some (Inr (\<forall>i \<in> set xs. b i), concat (map evs (takeWhile b xs @ take 1 (dropWhile b xs))))"
proof (induction xs)
  case Nil
  then show ?case by (simp add: ret_def)
next
  case (Cons x xs)
  then show ?case by (cases "b x") (simp_all add: ret_def)
qed

lemma allSafe_pure:
  "\<forall>i \<in> set xs. body i = Some (Inr (b i), []) \<Longrightarrow>
     allSafe body xs = Some (Inr (\<forall>i \<in> set xs. b i), [])"
  using allSafe_all [of xs body b "\<lambda>i. []"] by simp

lemma extentLeafEntry_value:
  "12 * (i + 1) + 12 \<le> length buf \<Longrightarrow>
     extentLeafEntry buf i =
       Some (Inr (rangeIsSafe (u32at buf (12 * (i + 1) + 8) * 4096)
                    ((u32at buf (12 * (i + 1) + 8) + u16at buf (12 * (i + 1) + 4)) * 4096)), [])"
  by (simp add: extentLeafEntry_def readUint32LE_def readUint16LE_def ret_def)

lemma extentsAreSafe_leaf:
  assumes "u16at buf 6 = 0" and "12 * nat (u16at buf 2) + 12 \<le> length buf"
  shows "extentsAreSafe (Suc k) env buf =
     Some (Inr (\<forall>i < nat (u16at buf 2).
                  rangeIsSafe (u32at buf (12 * (i + 1) + 8) * 4096)
                    ((u32at buf (12 * (i + 1) + 8) + u16at buf (12 * (i + 1) + 4)) * 4096)), [])"
proof -
  have "extentLeafEntry buf i =
       Some (Inr (rangeIsSafe (u32at buf (12 * (i + 1) + 8) * 4096)
                    ((u32at buf (12 * (i + 1) + 8) + u16at buf (12 * (i + 1) + 4)) * 4096)), [])"
    if "i < nat (u16at buf 2)" for i
  proof (rule extentLeafEntry_value)
    from that assms(2) show "12 * (i + 1) + 12 \<le> length buf" by simp
  qed
  then have "\<forall>i \<in> set [0..<nat (u16at buf 2)]. extentLeafEntry buf i =
       Some (Inr (rangeIsSafe (u32at buf (12 * (i + 1) + 8) * 4096)
                    ((u32at buf (12 * (i + 1) + 8) + u16at buf (12 * (i + 1) + 4)) * 4096)), [])"
    by simp
  from allSafe_pure [OF this] assms show ?thesis
    by (simp add: readUint16LE_def atLeast0LessThan Ball_def)
qed












subsection \<open>Indirect blocks\<close>

lemma direct_loop:
  assumes "4 * d \<le> length ib"
  shows "allSafe (\<lambda>i. andThen (lift (readUint32LE ib (i * 4))) (\<lambda>blockNum. ret (blockIsSafe blockNum)))
           [0..<d]
         = Some (Inr (\<forall>i < d. blockIsSafe (u32at ib (i * 4))), [])"
proof -
  have "andThen (lift (readUint32LE ib (i * 4))) (\<lambda>blockNum. ret (blockIsSafe blockNum))
        = Some (Inr (blockIsSafe (u32at ib (i * 4))), [])" if "i < d" for i
    using that assms by (simp add: readUint32LE_def ret_def)
  then have "\<forall>i \<in> set [0..<d].
        andThen (lift (readUint32LE ib (i * 4))) (\<lambda>blockNum. ret (blockIsSafe blockNum))
        = Some (Inr (blockIsSafe (u32at ib (i * 4))), [])"
    by simp
  from allSafe_pure [OF this] show ?thesis
    by (simp add: atLeast0LessThan Ball_def)
qed

lemma blocksL1AreSafe_value:
  assumes "c \<le> 1024"
  shows "blocksL1AreSafe env p c =
     Some (onValue (\<lambda>hex. \<forall>i < nat c. blockIsSafe (u32at (parseHex 4096 hex) (i * 4)))
             (debugfsReply env (Bd p)), [Sent (Bd p)])"
proof (cases "debugfsReply env (Bd p)")
  case (Inl err)
  then show ?thesis by (simp add: blocksL1AreSafe_def debugfsCmd_def onValue_def)
next
  case (Inr hex)
  from assms have "4 * nat c \<le> length (parseHex 4096 hex)"
    by (simp add: length_parseHex)
  from direct_loop [OF this] Inr show ?thesis
    by (simp add: blocksL1AreSafe_def debugfsCmd_def onValue_def Let_def)
qed

lemma blocksInUse_bounds:
  assumes "blocksInUse info = Inr n"
  shows "0 \<le> n \<and> n \<le> 1048576"
proof -
  from assms obtain bytes where n: "n = ceilDiv bytes 4096"
    and b: "readUint32LE (ino_buf info) 4 = Inr bytes"
    by (auto simp: blocksInUse_def onValue_def split: sum.splits)
  from b have "bytes = u32at (ino_buf info) 4"
    by (auto simp: readUint32LE_def split: if_splits)
  with u32at_bounds [of "ino_buf info" 4] have "0 \<le> bytes" "bytes < 4294967296" by simp_all
  then show ?thesis unfolding n ceilDiv_def by linarith
qed

lemma length_get_i_block: "length (get_i_block (InodeInfo i name hex)) = 60"
  by (simp add: get_i_block_def length_ino_buf)

lemma blocksAreSafe_direct:
  assumes "blocksInUse info = Inr n" and "n \<le> 12" and "length ib = 60"
  shows "blocksAreSafe env info ib = Some (Inr (\<forall>i < nat n. blockIsSafe (u32at ib (i * 4))), [])"
proof -
  from assms(1) have n0: "0 \<le> n" using blocksInUse_bounds by blast
  have "4 * nat n \<le> length ib" using assms by simp
  from direct_loop [OF this] assms n0 show ?thesis
    by (simp add: blocksAreSafe_def Let_def min_def ret_def blockCounts_L1_def)
qed

lemma blocksAreSafe_single:
  assumes "blocksInUse info = Inr n" and "12 < n" and "n \<le> 1036" and "length ib = 60"
  shows "blocksAreSafe env info ib =
     (if \<forall>i < 12. blockIsSafe (u32at ib (i * 4))
      then Some (onValue (\<lambda>hex. \<forall>i < nat (n - 12). blockIsSafe (u32at (parseHex 4096 hex) (i * 4)))
                   (debugfsReply env (Bd (u32at ib 48))), [Sent (Bd (u32at ib 48))])
      else Some (Inr False, []))"
proof -
  have "4 * 12 \<le> length ib" using assms by simp
  note d = direct_loop [OF this]
  have l1: "blocksL1AreSafe env (u32at ib 48) (n - 12) =
     Some (onValue (\<lambda>hex. \<forall>i < nat (n - 12). blockIsSafe (u32at (parseHex 4096 hex) (i * 4)))
             (debugfsReply env (Bd (u32at ib 48))), [Sent (Bd (u32at ib 48))])"
    using assms by (intro blocksL1AreSafe_value) simp
  have m: "min 12 n = 12" "min blockCounts_L1 (n - 12) = n - 12" "\<not> n - 12 \<le> 0"
    "min blockCounts_L2 0 = 0"
    using assms by (simp_all add: blockCounts_L1_def blockCounts_L2_def)
  have p1: "readUint32LE ib 48 = Inr (u32at ib 48)"
    using assms by (simp add: readUint32LE_def)
  show ?thesis
  proof (cases "debugfsReply env (Bd (u32at ib 48))")
    case (Inl err)
    with d l1 assms(1,2) show ?thesis
      by (simp add: blocksAreSafe_def Let_def m p1 ret_def onValue_def)
  next
    case (Inr hex)
    with d l1 assms(1,2) show ?thesis
      by (simp add: blocksAreSafe_def Let_def m p1 ret_def onValue_def)
  qed
qed

lemma level1BlocksAt_needed:
  assumes "int i * 1024 < l2"
  shows "level1BlocksAt l2 i = min 1024 (l2 - 1024 * int i)"
proof (cases "(int i + 1) * 1024 \<le> l2")
  case True
  then show ?thesis
    by (simp add: level1BlocksAt_def blockIdsPerBlock_def min_def js_rem_def orElse_def)
next
  case False
  with assms have m: "min l2 ((int i + 1) * 1024) = l2" by simp
  from assms have l2: "0 \<le> l2" by (smt (verit) of_nat_0_le_iff mult_nonneg_nonneg)
  have "l2 mod 1024 = l2 - 1024 * int i"
  proof -
    have "l2 = (l2 - 1024 * int i) + int i * 1024" by simp
    then have "l2 mod 1024 = (l2 - 1024 * int i) mod 1024"
      by (metis mod_mult_self1)
    moreover have "0 \<le> l2 - 1024 * int i" "l2 - 1024 * int i < 1024"
      using assms False by simp_all
    ultimately show ?thesis by simp
  qed
  with assms False l2 show ?thesis
    by (simp add: level1BlocksAt_def blockIdsPerBlock_def m js_rem_nonneg orElse_def)
qed


lemma level2BlocksAt_needed:
  assumes "int i * 1048576 < l3"
  shows "level2BlocksAt l3 i = min 1048576 (l3 - 1048576 * int i)"
proof (cases "(int i + 1) * 1048576 \<le> l3")
  case True
  then show ?thesis
    by (simp add: level2BlocksAt_def blockIdsPerBlock_def min_def js_rem_def orElse_def)
next
  case False
  with assms have m: "min l3 ((int i + 1) * 1048576) = l3" by simp
  from assms have l3: "0 \<le> l3" by (smt (verit) of_nat_0_le_iff mult_nonneg_nonneg)
  have "l3 mod 1048576 = l3 - 1048576 * int i"
  proof -
    have "l3 = (l3 - 1048576 * int i) + int i * 1048576" by simp
    then have "l3 mod 1048576 = (l3 - 1048576 * int i) mod 1048576"
      by (metis mod_mult_self1)
    moreover have "0 \<le> l3 - 1048576 * int i" "l3 - 1048576 * int i < 1048576"
      using assms False by simp_all
    ultimately show ?thesis by simp
  qed
  with assms False l3 show ?thesis
    by (simp add: level2BlocksAt_def blockIdsPerBlock_def m js_rem_nonneg orElse_def)
qed

lemma run_case_id [simp]:
  "(case m of None \<Rightarrow> None | Some (r, evs') \<Rightarrow> Some (r, [] @ evs')) = m"
  by (cases m) auto

lemma andThen_if_ret: "andThen m (\<lambda>safe. if \<not> safe then ret False else ret True) = m"
  by (auto simp: andThen_def ret_def split: option.splits sum.splits prod.splits)

lemma blocksAreSafe_double:
  assumes "blocksInUse info = Inr n" and "1036 < n" and "length ib = 60"
  shows "blocksAreSafe env info ib =
     (if \<forall>i < 12. blockIsSafe (u32at ib (i * 4))
      then andThen (blocksL1AreSafe env (u32at ib 48) 1024) (\<lambda>safeL1.
             if \<not> safeL1 then ret False
             else blocksL2AreSafe env (u32at ib 52) (n - 1036))
      else Some (Inr False, []))"
proof -
  have "4 * 12 \<le> length ib" using assms by simp
  note d = direct_loop [OF this]
  from assms(1) have n: "n \<le> 1048576" using blocksInUse_bounds by blast
  have m: "min 12 n = 12" "min blockCounts_L1 (n - 12) = 1024"
    "min blockCounts_L2 (n - 1036) = n - 1036" "min blockCounts_L3 0 = 0"
    using assms n by (simp_all add: blockCounts_L1_def blockCounts_L2_def blockCounts_L3_def)
  have p: "readUint32LE ib 48 = Inr (u32at ib 48)" "readUint32LE ib 52 = Inr (u32at ib 52)"
    using assms by (simp_all add: readUint32LE_def)
  have d': "allSafe (\<lambda>i. andThen (lift (readUint32LE ib (i * 4))) (\<lambda>blockNum. ret (blockIsSafe blockNum)))
           [0..<12] = Some (Inr (\<forall>i < 12. blockIsSafe (u32at ib (i * 4))), [])"
    using d by simp
  show ?thesis
    unfolding blocksAreSafe_def
    using assms(1,2)
    by (simp add: Let_def m p d' andThen_if_ret cong del: if_weak_cong) (auto simp: ret_def)
qed

text \<open>The number of entries consulted is the number of entries with blocks still
  needed below them, and no more than a block has.\<close>

lemma entriesConsulted_1024:
  "i < entriesConsulted 1024 needed \<longleftrightarrow> 1024 * int i < needed"
  unfolding entriesConsulted_def ceilDiv_def by linarith

lemma entriesConsulted_1024_le:
  "needed \<le> 1024 ^ 2 \<Longrightarrow> entriesConsulted 1024 needed \<le> 1024"
  unfolding entriesConsulted_def ceilDiv_def by simp

lemma entriesConsulted_1024_2:
  "i < entriesConsulted 1048576 needed \<longleftrightarrow> 1048576 * int i < needed"
  unfolding entriesConsulted_def ceilDiv_def by linarith

lemma entriesConsulted_1024_2_le:
  "needed \<le> 1024 ^ 3 \<Longrightarrow> entriesConsulted (1024 ^ 2) needed \<le> 1024"
  unfolding entriesConsulted_def ceilDiv_def by simp

lemma level1Safe_iff:
  "level1Safe blk p c = (\<forall>k < nat c. blockIsSafe (u32at (blk p) (k * 4)))"
  by (auto simp: level1Safe_def)

lemma blocksL2AreSafe_walk:
  assumes env: "\<forall>b. debugfsReply env (Bd b) = Inr (hex b)"
    and blk: "\<forall>b. blk b = parseHex 4096 (hex b)" and l2: "l2 \<le> 1024 ^ 2"
  shows "blocksL2AreSafe env p l2 = Some (Inr (level2Safe blk p l2), level2Fetches blk p l2)"
proof -
  define m where "m = entriesConsulted 1024 l2"
  define body where "body = (\<lambda>i.
            andThen (lift (readUint32LE (blk p) (i * 4))) (\<lambda>pointer.
              if \<not> blockIsSafe pointer then ret False
              else blocksL1AreSafe env pointer (level1BlocksAt l2 i)))"
  define evs where "evs = (\<lambda>i. if blockIsSafe (u32at (blk p) (i * 4))
                       then [Sent (Bd (u32at (blk p) (i * 4)))] else [])"
  have m: "m \<le> 1024" unfolding m_def using l2 by (rule entriesConsulted_1024_le)
  have b: "body i = Some (Inr (level2EntrySafe blk p l2 i), evs i)" if "i < m" for i
  proof -
    from that m have r: "readUint32LE (blk p) (i * 4) = Inr (u32at (blk p) (i * 4))"
      by (simp add: readUint32LE_def blk length_parseHex)
    from that have n: "int i * 1024 < l2"
      by (simp add: m_def entriesConsulted_1024)
    then have c: "level1BlocksAt l2 i = stillNeeded 1024 l2 i"
      by (simp add: level1BlocksAt_needed stillNeeded_def)
    have "stillNeeded 1024 l2 i \<le> 1024" by (simp add: stillNeeded_def)
    from blocksL1AreSafe_value [OF this, of env "u32at (blk p) (i * 4)"] env
    have l1: "blocksL1AreSafe env (u32at (blk p) (i * 4)) (stillNeeded 1024 l2 i) =
       Some (Inr (level1Safe blk (u32at (blk p) (i * 4)) (stillNeeded 1024 l2 i)),
             [Sent (Bd (u32at (blk p) (i * 4)))])"
      by (simp add: onValue_def level1Safe_iff blk)
    show ?thesis
      by (simp add: body_def r c l1 level2EntrySafe_def evs_def ret_def)
  qed
  then have "\<forall>i \<in> set [0..<m]. body i = Some (Inr (level2EntrySafe blk p l2 i), evs i)"
    by simp
  from allSafe_all [OF this]
  have "allSafe body [0..<m] =
     Some (Inr (level2Safe blk p l2), concat (map evs (entriesReached (level2EntrySafe blk p l2) m)))"
    by (simp add: entriesReached_def level2Safe_def m_def)
  moreover have "blocksL2AreSafe env p l2 = andThen (debugfsCmd env (Bd p)) (\<lambda>h. allSafe body [0..<m])"
    using env
    by (simp add: blocksL2AreSafe_def debugfsCmd_def Let_def body_def blk m_def
        entriesConsulted_def blockIdsPerBlock_def)
  ultimately show ?thesis
    using env by (simp add: debugfsCmd_def level2Fetches_def m_def evs_def)
qed

lemma blocksL3AreSafe_walk:
  assumes env: "\<forall>b. debugfsReply env (Bd b) = Inr (hex b)"
    and blk: "\<forall>b. blk b = parseHex 4096 (hex b)" and l3: "l3 \<le> 1024 ^ 3"
  shows "blocksL3AreSafe env p l3 = Some (Inr (level3Safe blk p l3), level3Fetches blk p l3)"
proof -
  define m where "m = entriesConsulted (1024 ^ 2) l3"
  define body where "body = (\<lambda>i.
            andThen (lift (readUint32LE (blk p) (i * 4))) (\<lambda>pointer.
              if \<not> blockIsSafe pointer then ret False
              else blocksL2AreSafe env pointer (level2BlocksAt l3 i)))"
  define evs where "evs = (\<lambda>i. if blockIsSafe (u32at (blk p) (i * 4))
                       then level2Fetches blk (u32at (blk p) (i * 4)) (stillNeeded (1024 ^ 2) l3 i)
                       else [])"
  have m: "m \<le> 1024" unfolding m_def using l3 by (rule entriesConsulted_1024_2_le)
  have b: "body i = Some (Inr (level3EntrySafe blk p l3 i), evs i)" if "i < m" for i
  proof -
    from that m have r: "readUint32LE (blk p) (i * 4) = Inr (u32at (blk p) (i * 4))"
      by (simp add: readUint32LE_def blk length_parseHex)
    from that have n: "int i * 1048576 < l3"
      by (simp add: m_def entriesConsulted_1024_2)
    then have c: "level2BlocksAt l3 i = stillNeeded (1024 ^ 2) l3 i"
      by (simp add: level2BlocksAt_needed stillNeeded_def)
    have "stillNeeded (1024 ^ 2) l3 i \<le> 1024 ^ 2" by (simp add: stillNeeded_def)
    note l2 = blocksL2AreSafe_walk [OF env blk this, of "u32at (blk p) (i * 4)"]
    show ?thesis
      unfolding body_def r c level3EntrySafe_def evs_def
      using l2 by (simp add: ret_def)
  qed
  then have "\<forall>i \<in> set [0..<m]. body i = Some (Inr (level3EntrySafe blk p l3 i), evs i)"
    by simp
  from allSafe_all [OF this]
  have "allSafe body [0..<m] =
     Some (Inr (level3Safe blk p l3), concat (map evs (entriesReached (level3EntrySafe blk p l3) m)))"
    by (simp add: entriesReached_def level3Safe_def m_def)
  moreover have "blocksL3AreSafe env p l3 = andThen (debugfsCmd env (Bd p)) (\<lambda>h. allSafe body [0..<m])"
    using env
    by (simp add: blocksL3AreSafe_def debugfsCmd_def Let_def body_def blk m_def
        entriesConsulted_def blockIdsPerBlock_def)
  ultimately show ?thesis
    using env by (simp add: debugfsCmd_def level3Fetches_def m_def evs_def)
qed


text \<open>
  C6. Let \<^verbatim>\<open>blocksInUse\<close> be \<open>n\<close> and the block-mapping area have its 60 bytes. With
  \<open>n = 13\<close> the answer is the conjunction over the 12 direct pointers and the first
  entry of the single-indirect block, nothing else; the only command sent is the fetch
  of the single-indirect block, and it is sent only when the 12 direct pointers are
  safe. In general: up to 12 blocks, the first \<open>n\<close> direct pointers are tested and
  nothing is fetched; up to 1036 blocks, the 12 direct pointers and the first \<open>n - 12\<close>
  entries of the single-indirect block; beyond, all 1024 entries of the single-indirect
  block, and the double-indirect block is walked for the \<open>n - 1036\<close> blocks that remain,
  at most \<open>1024\<^sup>2\<close>. The triple-indirect block is not fetched for any inode: the size
  field gives at most \<open>2\<^sup>2\<^sup>0\<close> blocks. A single-indirect block asked for \<open>c\<close> entries, at
  most 1024, is tested on its first \<open>c\<close> entries. When the inspector answers every fetch
  of a block, the walk of a double-indirect block for \<open>l2\<close> blocks, at most \<open>1024\<^sup>2\<close>, and
  the walk of a triple-indirect block for \<open>l3\<close> blocks, at most \<open>1024\<^sup>3\<close>, are the walks
  of the specification: the block is fetched and its first \<open>\<lceil>l2 / 1024\<rceil>\<close> or
  \<open>\<lceil>l3 / 1024\<^sup>2\<rceil>\<close> entries are consulted in order; the block an entry names is tested,
  and if safe walked for the blocks still needed below that entry, at most 1024 or
  \<open>1024\<^sup>2\<close>; the walk stops at the first unsafe entry. The answer is the conjunction
  over the entries consulted, and the commands sent are the fetches of the blocks
  walked, in the order of the walk.
\<close>

theorem blocksAreSafe_counts:
  assumes "blocksInUse info = Inr n" and "length ib = 60"
  shows
  "(n = 13 \<longrightarrow>
      blocksAreSafe env info ib =
        (if \<forall>i < 12. blockIsSafe (u32at ib (i * 4))
         then Some (onValue (\<lambda>hex. blockIsSafe (u32at (parseHex 4096 hex) 0))
                      (debugfsReply env (Bd (u32at ib 48))), [Sent (Bd (u32at ib 48))])
         else Some (Inr False, [])))
   \<and> (n \<le> 12 \<longrightarrow>
      blocksAreSafe env info ib = Some (Inr (\<forall>i < nat n. blockIsSafe (u32at ib (i * 4))), []))
   \<and> (12 < n \<and> n \<le> 1036 \<longrightarrow>
      blocksAreSafe env info ib =
        (if \<forall>i < 12. blockIsSafe (u32at ib (i * 4))
         then Some (onValue (\<lambda>hex. \<forall>i < nat (n - 12). blockIsSafe (u32at (parseHex 4096 hex) (i * 4)))
                      (debugfsReply env (Bd (u32at ib 48))), [Sent (Bd (u32at ib 48))])
         else Some (Inr False, [])))
   \<and> (1036 < n \<longrightarrow>
      n - 1036 \<le> 1024 ^ 2
      \<and> blocksAreSafe env info ib =
        (if \<forall>i < 12. blockIsSafe (u32at ib (i * 4))
         then andThen (blocksL1AreSafe env (u32at ib 48) 1024) (\<lambda>safeL1.
                if \<not> safeL1 then ret False
                else blocksL2AreSafe env (u32at ib 52) (n - 1036))
         else Some (Inr False, [])))
   \<and> (c \<le> 1024 \<longrightarrow>
      blocksL1AreSafe env p c =
        Some (onValue (\<lambda>hex. \<forall>i < nat c. blockIsSafe (u32at (parseHex 4096 hex) (i * 4)))
                (debugfsReply env (Bd p)), [Sent (Bd p)]))
   \<and> ((\<forall>b. debugfsReply env (Bd b) = Inr (hex b)) \<and> l2 \<le> 1024 ^ 2 \<longrightarrow>
      blocksL2AreSafe env p l2 =
        Some (Inr (level2Safe (\<lambda>b. parseHex 4096 (hex b)) p l2),
              level2Fetches (\<lambda>b. parseHex 4096 (hex b)) p l2))
   \<and> ((\<forall>b. debugfsReply env (Bd b) = Inr (hex b)) \<and> l3 \<le> 1024 ^ 3 \<longrightarrow>
      blocksL3AreSafe env p l3 =
        Some (Inr (level3Safe (\<lambda>b. parseHex 4096 (hex b)) p l3),
              level3Fetches (\<lambda>b. parseHex 4096 (hex b)) p l3))"
proof (intro conjI impI)
  assume n: "n = 13"
  with assms blocksAreSafe_single [of info n ib env]
  show "blocksAreSafe env info ib =
        (if \<forall>i < 12. blockIsSafe (u32at ib (i * 4))
         then Some (onValue (\<lambda>hex. blockIsSafe (u32at (parseHex 4096 hex) 0))
                      (debugfsReply env (Bd (u32at ib 48))), [Sent (Bd (u32at ib 48))])
         else Some (Inr False, []))"
    by simp
next
  assume "n \<le> 12"
  with assms blocksAreSafe_direct [of info n ib env]
  show "blocksAreSafe env info ib
      = Some (Inr (\<forall>i < nat n. blockIsSafe (u32at ib (i * 4))), [])"
    by blast
next
  assume "12 < n \<and> n \<le> 1036"
  with assms blocksAreSafe_single [of info n ib env]
  show "blocksAreSafe env info ib =
        (if \<forall>i < 12. blockIsSafe (u32at ib (i * 4))
         then Some (onValue (\<lambda>hex. \<forall>i < nat (n - 12). blockIsSafe (u32at (parseHex 4096 hex) (i * 4)))
                      (debugfsReply env (Bd (u32at ib 48))), [Sent (Bd (u32at ib 48))])
         else Some (Inr False, []))"
    by blast
next
  assume n: "1036 < n"
  from assms(1) show "n - 1036 \<le> 1024 ^ 2"
    using blocksInUse_bounds [of info n] by simp
  from assms n blocksAreSafe_double [of info n ib env]
  show "blocksAreSafe env info ib =
        (if \<forall>i < 12. blockIsSafe (u32at ib (i * 4))
         then andThen (blocksL1AreSafe env (u32at ib 48) 1024) (\<lambda>safeL1.
                if \<not> safeL1 then ret False
                else blocksL2AreSafe env (u32at ib 52) (n - 1036))
         else Some (Inr False, []))"
    by blast
next
  assume "c \<le> 1024"
  then show "blocksL1AreSafe env p c =
        Some (onValue (\<lambda>hex. \<forall>i < nat c. blockIsSafe (u32at (parseHex 4096 hex) (i * 4)))
                (debugfsReply env (Bd p)), [Sent (Bd p)])"
    by (rule blocksL1AreSafe_value)
next
  assume "(\<forall>b. debugfsReply env (Bd b) = Inr (hex b)) \<and> l2 \<le> 1024 ^ 2"
  then show "blocksL2AreSafe env p l2 =
        Some (Inr (level2Safe (\<lambda>b. parseHex 4096 (hex b)) p l2),
              level2Fetches (\<lambda>b. parseHex 4096 (hex b)) p l2)"
    using blocksL2AreSafe_walk [of env hex "\<lambda>b. parseHex 4096 (hex b)" l2 p] by simp
next
  assume "(\<forall>b. debugfsReply env (Bd b) = Inr (hex b)) \<and> l3 \<le> 1024 ^ 3"
  then show "blocksL3AreSafe env p l3 =
        Some (Inr (level3Safe (\<lambda>b. parseHex 4096 (hex b)) p l3),
              level3Fetches (\<lambda>b. parseHex 4096 (hex b)) p l3)"
    using blocksL3AreSafe_walk [of env hex "\<lambda>b. parseHex 4096 (hex b)" l3 p] by simp
qed

lemma example_inode13_decoded:
  "parseHex 256 example_inode13_hex =
    (replicate 256 0)
    [0 := 164, 1 := 129, 2 := 0, 3 := 0, 4 := 0, 5 := 208, 6 := 0, 7 := 0, 8 := 0,
      9 := 0, 10 := 0, 11 := 0, 12 := 0, 13 := 0, 14 := 0, 15 := 0, 32 := 0, 33 := 0,
      34 := 0, 35 := 0, 36 := 0, 37 := 0, 38 := 0, 39 := 0, 40 := 100, 41 := 0,
      42 := 0, 43 := 0, 44 := 101, 45 := 0, 46 := 0, 47 := 0, 48 := 102, 49 := 0,
      50 := 0, 51 := 0, 52 := 103, 53 := 0, 54 := 0, 55 := 0, 56 := 104, 57 := 0,
      58 := 0, 59 := 0, 60 := 105, 61 := 0, 62 := 0, 63 := 0, 64 := 106, 65 := 0,
      66 := 0, 67 := 0, 68 := 107, 69 := 0, 70 := 0, 71 := 0, 72 := 108, 73 := 0,
      74 := 0, 75 := 0, 76 := 109, 77 := 0, 78 := 0, 79 := 0, 80 := 110, 81 := 0,
      82 := 0, 83 := 0, 84 := 111, 85 := 0, 86 := 0, 87 := 0, 88 := 112, 89 := 0,
      90 := 0, 91 := 0, 92 := 0, 93 := 0, 94 := 0, 95 := 0]"
  by (simp add: example_inode13_hex_def parseHex_def js_def hex_eval upt_unroll)

lemma example_indirect_decoded:
  "parseHex 4096 (drop 8 example_indirect_reply) =
    (replicate 4096 0)
    [0 := 113, 1 := 0, 2 := 0, 3 := 0, 4 := 0, 5 := 0, 6 := 0, 7 := 0, 8 := 0, 9 := 0,
      10 := 0, 11 := 0, 12 := 0, 13 := 0, 14 := 0, 15 := 0]"
  by (simp add: example_indirect_reply_def parseHex_def js_def hex_eval upt_unroll)

lemma example_inode_big_decoded:
  "ino_buf example_inode_big =
    (replicate 256 0)
    [0 := 164, 1 := 129, 2 := 0, 3 := 0, 4 := 0, 5 := 0, 6 := 80, 7 := 0, 8 := 0,
      9 := 0, 10 := 0, 11 := 0, 12 := 0, 13 := 0, 14 := 0, 15 := 0]"
  by (simp add: example_inode_big_def InodeInfo_def parseHex_def js_def hex_eval upt_unroll)


lemma all_less_list: "(\<forall>i < n. P i) = list_all P [0..<n]"
  by (auto simp: list_all_iff)

lemma example_inode13_blocks: "blocksInUse example_inode13 = Inr 13"
  by (simp add: blocksInUse_def example_inode13_def InodeInfo_def example_inode13_decoded
      readUint32LE_def u32at_def onValue_def ceilDiv_def)

lemma example_inode13_pointer_values:
  "map (\<lambda>i. u32at (get_i_block example_inode13) (i * 4)) [0..<12]
     = [100, 101, 102, 103, 104, 105, 106, 107, 108, 109, 110, 111]"
  "u32at (get_i_block example_inode13) 48 = 112"
  by (simp_all add: upt_unroll get_i_block_def example_inode13_def InodeInfo_def
      example_inode13_decoded u32at_def)

lemma example_blocks_safe:
  "list_all blockIsSafe [100, 101, 102, 103, 104, 105, 106, 107, 108, 109, 110, 111, 113]"
  by (simp add: blockIsSafe_def rangeIsSafe_def badRanges_def)

lemma example_inode13_pointers:
  "\<forall>i < 12. blockIsSafe (u32at (get_i_block example_inode13) (i * 4))"
proof -
  have "list_all blockIsSafe (map (\<lambda>i. u32at (get_i_block example_inode13) (i * 4)) [0..<12])"
    using example_blocks_safe by (simp add: example_inode13_pointer_values)
  then show ?thesis by (simp add: list_all_iff)
qed

lemma example_indirect_replies:
  "debugfsReply example_indirect_inspector (Bd 112) = Inr (drop 8 example_indirect_reply)"
  by (simp add: debugfsReply_def example_indirect_inspector_def example_indirect_reply_def
      afterFirstLine_def js_def)

lemma u32at_0:
  "u32at buf 0 = uint (buf ! 0) + 256 * uint (buf ! 1) + 65536 * uint (buf ! 2) + 16777216 * uint (buf ! 3)"
  by (simp add: u32at_def numeral_2_eq_2 numeral_3_eq_3)

lemma example_indirect_entry: "u32at (parseHex 4096 (drop 8 example_indirect_reply)) 0 = 113"
  by (simp add: example_indirect_decoded u32at_0)

lemma example_inode_big_blocks: "blocksInUse example_inode_big = Inr 1280"
  by (simp add: blocksInUse_def example_inode_big_decoded
      readUint32LE_def u32at_def onValue_def ceilDiv_def)

lemma example_inode_blocks: "blocksInUse example_inode = Inr 1"
  using example_inode_size length_ino_buf [of 12 "js ''notes.txt''" example_inode_hex]
  by (simp add: blocksInUse_def onValue_def readUint32LE_def ceilDiv_def example_inode_def)

lemma example_block_decoded:
  "parseHex 4096 example_block_dump =
    (replicate 4096 0)
    [0 := 113, 1 := 0, 2 := 0, 3 := 0, 4 := 0, 5 := 0, 6 := 0, 7 := 0, 8 := 0, 9 := 0,
      10 := 0, 11 := 0, 12 := 0, 13 := 0, 14 := 0, 15 := 0]"
  by (simp add: example_block_dump_def parseHex_def js_def hex_eval upt_unroll)

lemma example_bad_block_decoded:
  "parseHex 4096 example_bad_block_dump =
    (replicate 4096 0)
    [0 := 221, 1 := 249, 2 := 65, 3 := 2, 4 := 0, 5 := 0, 6 := 0, 7 := 0, 8 := 0, 9 := 0,
      10 := 0, 11 := 0, 12 := 0, 13 := 0, 14 := 0, 15 := 0]"
  by (simp add: example_bad_block_dump_def parseHex_def js_def hex_eval upt_unroll)

lemma example_block_nth:
  "j < 4096 \<Longrightarrow> parseHex 4096 example_block_dump ! j = (if j = 0 then 113 else 0)"
  by (simp add: example_block_decoded nth_list_update)

lemma example_block_entries:
  "k < 1024 \<Longrightarrow> u32at (parseHex 4096 example_block_dump) (k * 4) = (if k = 0 then 113 else 0)"
  by (simp add: u32at_def example_block_nth)

lemma example_bad_block_entry: "u32at (parseHex 4096 example_bad_block_dump) 0 = 37878237"
  by (simp add: example_bad_block_decoded u32at_0)

lemma example_blocks_values:
  "blockIsSafe 0" "blockIsSafe 113" "\<not> blockIsSafe 37878237"
  by (simp_all add: blockIsSafe_def rangeIsSafe_def badRanges_def)

lemma example_safe_blocks_replies:
  "debugfsReply example_safe_blocks (Bd b) = Inr example_block_dump"
  by (simp add: debugfsReply_def example_safe_blocks_def afterFirstLine_def js_def)

lemma example_mixed_blocks_replies:
  "debugfsReply example_mixed_blocks (Bd b) =
     Inr (if b = 113 then example_bad_block_dump else example_block_dump)"
  by (simp add: debugfsReply_def example_mixed_blocks_def afterFirstLine_def js_def)

lemma example_block_level1:
  "c \<le> 1024 \<Longrightarrow> blk p = parseHex 4096 example_block_dump \<Longrightarrow> level1Safe blk p c"
  by (simp add: level1Safe_def example_block_entries example_blocks_values)

lemma example_bad_block_level1:
  "0 < c \<Longrightarrow> blk p = parseHex 4096 example_bad_block_dump \<Longrightarrow> \<not> level1Safe blk p c"
  using example_bad_block_entry example_blocks_values(3)
  by (auto simp: level1Safe_def intro!: bexI [of _ 0])

lemma entriesConsulted_values:
  "entriesConsulted 1024 1025 = 2" "entriesConsulted 1048576 1025 = 1"
  "stillNeeded 1024 1025 0 = 1024" "stillNeeded 1024 1025 (Suc 0) = 1"
  "stillNeeded 1048576 1025 0 = 1025"
  by (simp_all add: entriesConsulted_def ceilDiv_def stillNeeded_def)

lemma upt_2: "[0..<2] = [0, Suc 0]"
  by (simp add: upt_unroll)

lemma example_safe_level2:
  assumes "\<forall>b. blk b = parseHex 4096 example_block_dump"
  shows "level2Safe blk p 1025" "level2Fetches blk p 1025 = [Sent (Bd p), Sent (Bd 113), Sent (Bd 0)]"
proof -
  have e: "u32at (blk p) 0 = 113" "u32at (blk p) 4 = 0"
    using example_block_entries [of 0] example_block_entries [of 1] assms by simp_all
  have l1: "level1Safe blk q c" if "c \<le> 1024" for q c
    using that assms by (simp add: example_block_level1)
  have ok: "level2EntrySafe blk p 1025 0" "level2EntrySafe blk p 1025 (Suc 0)"
    by (simp_all add: level2EntrySafe_def e entriesConsulted_values example_blocks_values l1)
  show "level2Safe blk p 1025"
    using ok by (simp add: level2Safe_def entriesConsulted_values atLeast0LessThan lessThan_Suc
        numeral_2_eq_2)
  show "level2Fetches blk p 1025 = [Sent (Bd p), Sent (Bd 113), Sent (Bd 0)]"
    using ok by (simp add: level2Fetches_def entriesReached_def entriesConsulted_values upt_2 e
        example_blocks_values)
qed

lemma example_mixed_level2:
  assumes "\<forall>b. blk b = parseHex 4096 (if b = 113 then example_bad_block_dump else example_block_dump)"
  shows "\<not> level2Safe blk 112 1025" "level2Fetches blk 112 1025 = [Sent (Bd 112), Sent (Bd 113)]"
    "\<not> level2Safe blk 113 1025" "level2Fetches blk 113 1025 = [Sent (Bd 113)]"
proof -
  have e: "u32at (blk 112) 0 = 113" "u32at (blk 113) 0 = 37878237"
    using example_block_entries [of 0] example_bad_block_entry assms by simp_all
  have l1: "\<not> level1Safe blk 113 1024"
    using assms by (simp add: example_bad_block_level1)
  have ok: "\<not> level2EntrySafe blk 112 1025 0" "\<not> level2EntrySafe blk 113 1025 0"
    by (simp_all add: level2EntrySafe_def e entriesConsulted_values example_blocks_values l1)
  show "\<not> level2Safe blk 112 1025" "\<not> level2Safe blk 113 1025"
    using ok by (auto simp: level2Safe_def entriesConsulted_values)
  show "level2Fetches blk 112 1025 = [Sent (Bd 112), Sent (Bd 113)]"
    "level2Fetches blk 113 1025 = [Sent (Bd 113)]"
    using ok by (simp_all add: level2Fetches_def entriesReached_def entriesConsulted_values upt_2 e
        example_blocks_values)
qed

lemma example_safe_level3:
  assumes "\<forall>b. blk b = parseHex 4096 example_block_dump"
  shows "level3Safe blk p 1025"
    "level3Fetches blk p 1025 = [Sent (Bd p), Sent (Bd 113), Sent (Bd 113), Sent (Bd 0)]"
proof -
  have e: "u32at (blk p) 0 = 113"
    using example_block_entries [of 0] assms by simp
  note l2 = example_safe_level2 [OF assms, of 113]
  have ok: "level3EntrySafe blk p 1025 0"
    by (simp add: level3EntrySafe_def e entriesConsulted_values example_blocks_values l2)
  show "level3Safe blk p 1025"
    using ok by (simp add: level3Safe_def entriesConsulted_values)
  show "level3Fetches blk p 1025 = [Sent (Bd p), Sent (Bd 113), Sent (Bd 113), Sent (Bd 0)]"
    using ok
    by (simp add: level3Fetches_def entriesReached_def entriesConsulted_values e
        example_blocks_values l2)
qed

lemma example_mixed_level3:
  assumes "\<forall>b. blk b = parseHex 4096 (if b = 113 then example_bad_block_dump else example_block_dump)"
  shows "\<not> level3Safe blk 112 1025" "level3Fetches blk 112 1025 = [Sent (Bd 112), Sent (Bd 113)]"
proof -
  have e: "u32at (blk 112) 0 = 113"
    using example_block_entries [of 0] assms by simp
  note l2 = example_mixed_level2 [OF assms]
  have ok: "\<not> level3EntrySafe blk 112 1025 0"
    by (simp add: level3EntrySafe_def e entriesConsulted_values example_blocks_values l2)
  show "\<not> level3Safe blk 112 1025"
    using ok by (simp add: level3Safe_def entriesConsulted_values)
  show "level3Fetches blk 112 1025 = [Sent (Bd 112), Sent (Bd 113)]"
    using ok
    by (simp add: level3Fetches_def entriesReached_def entriesConsulted_values e
        example_blocks_values l2)
qed

theorem blocksAreSafe_counts_witness:
  "(blocksInUse example_inode13 = Inr 13 \<and> length (get_i_block example_inode13) = 60)
   \<and> blocksAreSafe example_indirect_inspector example_inode13 (get_i_block example_inode13)
       = Some (Inr True, [Sent (Bd 112)])
   \<and> (blocksInUse example_inode = Inr 1 \<and> length (get_i_block example_inode) = 60 \<and> (1::int) \<le> 12)
   \<and> blocksAreSafe example_indirect_inspector example_inode (get_i_block example_inode)
       = Some (Inr (\<forall>i < nat 1. blockIsSafe (u32at (get_i_block example_inode) (i * 4))), [])
   \<and> (blocksInUse example_inode_big = Inr 1280 \<and> length (get_i_block example_inode_big) = 60
        \<and> (1036::int) < 1280)
   \<and> blocksAreSafe example_indirect_inspector example_inode_big (get_i_block example_inode_big)
       = (if \<forall>i < 12. blockIsSafe (u32at (get_i_block example_inode_big) (i * 4))
          then andThen (blocksL1AreSafe example_indirect_inspector
                          (u32at (get_i_block example_inode_big) 48) 1024) (\<lambda>safeL1.
                 if \<not> safeL1 then ret False
                 else blocksL2AreSafe example_indirect_inspector
                        (u32at (get_i_block example_inode_big) 52) (1280 - 1036))
          else Some (Inr False, []))
   \<and> (1::int) \<le> 1024
   \<and> blocksL1AreSafe example_indirect_inspector 112 1 = Some (Inr True, [Sent (Bd 112)])
   \<and> (\<forall>b. debugfsReply example_safe_blocks (Bd b) = Inr example_block_dump)
   \<and> (1025::int) \<le> 1024 ^ 2 \<and> (1025::int) \<le> 1024 ^ 3
   \<and> blocksL2AreSafe example_safe_blocks 112 1025
       = Some (Inr True, [Sent (Bd 112), Sent (Bd 113), Sent (Bd 0)])
   \<and> blocksL3AreSafe example_safe_blocks 112 1025
       = Some (Inr True, [Sent (Bd 112), Sent (Bd 113), Sent (Bd 113), Sent (Bd 0)])
   \<and> (\<forall>b. debugfsReply example_mixed_blocks (Bd b)
            = Inr (if b = 113 then example_bad_block_dump else example_block_dump))
   \<and> blocksL2AreSafe example_mixed_blocks 112 1025 = Some (Inr False, [Sent (Bd 112), Sent (Bd 113)])
   \<and> blocksL3AreSafe example_mixed_blocks 112 1025 = Some (Inr False, [Sent (Bd 112), Sent (Bd 113)])"
proof -
  have l13: "length (get_i_block example_inode13) = 60"
    by (simp add: example_inode13_def length_get_i_block)
  have l1: "length (get_i_block example_inode) = 60"
    by (simp add: example_inode_def length_get_i_block)
  have lbig: "length (get_i_block example_inode_big) = 60"
    by (simp add: example_inode_big_def length_get_i_block)
  note t13 = blocksAreSafe_counts [OF example_inode13_blocks l13,
      where env = example_indirect_inspector and c = 1 and p = 112]
  note t1 = blocksAreSafe_counts [OF example_inode_blocks l1,
      where env = example_indirect_inspector]
  note tbig = blocksAreSafe_counts [OF example_inode_big_blocks lbig,
      where env = example_indirect_inspector]
  note tsafe = blocksAreSafe_counts [OF example_inode13_blocks l13,
      where env = example_safe_blocks and hex = "\<lambda>b. example_block_dump"
        and p = 112 and ?l2.0 = 1025 and ?l3.0 = 1025]
  note tmixed = blocksAreSafe_counts [OF example_inode13_blocks l13,
      where env = example_mixed_blocks
        and hex = "\<lambda>b. if b = 113 then example_bad_block_dump else example_block_dump"
        and p = 112 and ?l2.0 = 1025 and ?l3.0 = 1025]
  have a: "blocksAreSafe example_indirect_inspector example_inode13 (get_i_block example_inode13)
       = Some (Inr True, [Sent (Bd 112)])"
    using t13 [THEN conjunct1] example_inode13_pointers example_blocks_safe
    by (simp add: example_inode13_pointer_values example_indirect_replies example_indirect_entry
        onValue_def)
  have b: "blocksL1AreSafe example_indirect_inspector 112 1 = Some (Inr True, [Sent (Bd 112)])"
    using t13 [THEN conjunct2, THEN conjunct2, THEN conjunct2, THEN conjunct2, THEN conjunct1]
      example_blocks_safe
    by (simp add: example_indirect_replies example_indirect_entry onValue_def)
  have c: "blocksAreSafe example_indirect_inspector example_inode (get_i_block example_inode)
       = Some (Inr (\<forall>i < nat 1. blockIsSafe (u32at (get_i_block example_inode) (i * 4))), [])"
    using t1 [THEN conjunct2, THEN conjunct1] by simp
  have d: "blocksAreSafe example_indirect_inspector example_inode_big (get_i_block example_inode_big)
       = (if \<forall>i < 12. blockIsSafe (u32at (get_i_block example_inode_big) (i * 4))
          then andThen (blocksL1AreSafe example_indirect_inspector
                          (u32at (get_i_block example_inode_big) 48) 1024) (\<lambda>safeL1.
                 if \<not> safeL1 then ret False
                 else blocksL2AreSafe example_indirect_inspector
                        (u32at (get_i_block example_inode_big) 52) (1280 - 1036))
          else Some (Inr False, []))"
    using tbig [THEN conjunct2, THEN conjunct2, THEN conjunct2, THEN conjunct1] by simp
  have e: "blocksL2AreSafe example_safe_blocks 112 1025
       = Some (Inr True, [Sent (Bd 112), Sent (Bd 113), Sent (Bd 0)])"
    using tsafe [THEN conjunct2, THEN conjunct2, THEN conjunct2, THEN conjunct2, THEN conjunct2,
        THEN conjunct1]
      example_safe_level2 [of "\<lambda>b. parseHex 4096 example_block_dump" 112]
    by (simp add: example_safe_blocks_replies)
  have f: "blocksL3AreSafe example_safe_blocks 112 1025
       = Some (Inr True, [Sent (Bd 112), Sent (Bd 113), Sent (Bd 113), Sent (Bd 0)])"
    using tsafe [THEN conjunct2, THEN conjunct2, THEN conjunct2, THEN conjunct2, THEN conjunct2,
        THEN conjunct2]
      example_safe_level3 [of "\<lambda>b. parseHex 4096 example_block_dump" 112]
    by (simp add: example_safe_blocks_replies)
  have g: "blocksL2AreSafe example_mixed_blocks 112 1025
       = Some (Inr False, [Sent (Bd 112), Sent (Bd 113)])"
    using tmixed [THEN conjunct2, THEN conjunct2, THEN conjunct2, THEN conjunct2, THEN conjunct2,
        THEN conjunct1]
      example_mixed_level2 [of "\<lambda>b. parseHex 4096
        (if b = 113 then example_bad_block_dump else example_block_dump)"]
    by (simp add: example_mixed_blocks_replies)
  have h: "blocksL3AreSafe example_mixed_blocks 112 1025
       = Some (Inr False, [Sent (Bd 112), Sent (Bd 113)])"
    using tmixed [THEN conjunct2, THEN conjunct2, THEN conjunct2, THEN conjunct2, THEN conjunct2,
        THEN conjunct2]
      example_mixed_level3 [of "\<lambda>b. parseHex 4096
        (if b = 113 then example_bad_block_dump else example_block_dump)"]
    by (simp add: example_mixed_blocks_replies)
  from a b c d e f g h l13 l1 lbig example_inode13_blocks example_inode_blocks
    example_inode_big_blocks example_safe_blocks_replies example_mixed_blocks_replies
  show ?thesis by simp
qed

subsection \<open>The session multiplexer\<close>

lemma indexOf_bound: "indexOf s p = Some i \<Longrightarrow> i + length p \<le> length s \<and> take (length p) (drop i s) = p"
proof (induction s arbitrary: i)
  case Nil
  then show ?case by (auto split: if_splits)
next
  case (Cons c cs)
  show ?case
  proof (cases "take (length p) (c # cs) = p")
    case True
    with Cons.prems have "i = 0" by simp
    moreover from arg_cong [OF True, of length] have "length p \<le> length (c # cs)"
      by simp
    ultimately show ?thesis using True by simp
  next
    case False
    with Cons.prems obtain j where j: "indexOf cs p = Some j" "i = Suc j" by auto
    with Cons.IH [of j] show ?thesis by simp
  qed
qed

text \<open>The loop in terms of the cut of the text: responses are delivered in order.\<close>

lemma splitPrompt_indexOf_None:
  "indexOf s p = None \<Longrightarrow> splitPrompt p acc s = ([], acc @ s)"
proof (induction s arbitrary: acc)
  case Nil
  then show ?case by simp
next
  case (Cons c cs)
  then show ?case by (auto split: if_splits)
qed

lemma splitPrompt_indexOf_Some:
  "p \<noteq> [] \<Longrightarrow> indexOf s p = Some i \<Longrightarrow>
     splitPrompt p acc s =
       (case splitPrompt p [] (drop (i + length p) s) of
          (responses, rest) \<Rightarrow> ((acc @ take i s) # responses, rest))"
proof (induction s arbitrary: acc i)
  case Nil
  then show ?case by (auto split: if_splits)
next
  case (Cons c cs)
  show ?case
  proof (cases "take (length p) (c # cs) = p")
    case True
    with Cons.prems have "i = 0" by simp
    with True Cons.prems show ?thesis by simp
  next
    case False
    with Cons.prems obtain j where j: "indexOf cs p = Some j" "i = Suc j" by auto
    from Cons.IH [OF Cons.prems(1) j(1), of "acc @ [c]"] False j show ?thesis
      by simp
  qed
qed


text \<open>Delivering a list of responses, oldest first.\<close>

lemma deliver_rest:
  "deliver m (s\<lparr>sinceLastMatch := x\<rparr>) = (deliver m s)\<lparr>sinceLastMatch := x\<rparr>"
  by (simp add: deliver_def split: list.splits)

lemma foldl_deliver_rest:
  "foldl (\<lambda>st m. deliver m st) (s\<lparr>sinceLastMatch := x\<rparr>) ms
     = (foldl (\<lambda>st m. deliver m st) s ms)\<lparr>sinceLastMatch := x\<rparr>"
  by (induction ms arbitrary: s) (simp_all add: deliver_rest)

lemma lookForPrompt_split:
  assumes "p \<noteq> []"
  shows "lookForPrompt p st =
     Some ((foldl (\<lambda>st m. deliver m st) st (fst (splitPrompt p [] (sinceLastMatch st))))
            \<lparr>sinceLastMatch := snd (splitPrompt p [] (sinceLastMatch st))\<rparr>)"
proof (induction "length (sinceLastMatch st)" arbitrary: st rule: less_induct)
  case less
  show ?case
  proof (cases "indexOf (sinceLastMatch st) p")
    case None
    then show ?thesis
      by (subst lookForPrompt.simps) (simp add: splitPrompt_indexOf_None)
  next
    case (Some i)
    let ?st' = "(deliver (take i (sinceLastMatch st)) st)
                  \<lparr>sinceLastMatch := drop (i + length p) (sinceLastMatch st)\<rparr>"
    from indexOf_bound [OF Some] assms
    have "length (sinceLastMatch ?st') < length (sinceLastMatch st)"
      by (cases p) auto
    from less [OF this] have IH: "lookForPrompt p ?st' =
       Some ((foldl (\<lambda>st m. deliver m st) ?st' (fst (splitPrompt p [] (sinceLastMatch ?st'))))
            \<lparr>sinceLastMatch := snd (splitPrompt p [] (sinceLastMatch ?st'))\<rparr>)" .
    note d = foldl_deliver_rest
    show ?thesis
      apply (subst lookForPrompt.simps)
      apply (simp add: Some Let_def IH splitPrompt_indexOf_Some [OF assms Some] d split: prod.splits)
      done
  qed
qed


lemma indexOf_append: "indexOf s p = Some i \<Longrightarrow> indexOf (s @ c) p = Some i"
proof (induction s arbitrary: i)
  case Nil
  then show ?case by (cases c) (auto split: if_splits)
next
  case (Cons x xs)
  show ?case
  proof (cases "take (length p) (x # xs) = p")
    case True
    from arg_cong [OF True, of length] have "length p - length (x # xs) = 0" by simp
    then have "take (length p) ((x # xs) @ c) = take (length p) (x # xs)"
      by (simp only: take_append take_0 append_Nil2)
    with True have "indexOf ((x # xs) @ c) p = Some 0" by simp
    moreover from True Cons.prems have "i = 0" by simp
    ultimately show ?thesis by simp
  next
    case False
    with Cons.prems obtain j where j: "indexOf xs p = Some j" "i = Suc j" by auto
    from indexOf_bound [OF j(1)] have "length p - length (x # xs) = 0" by simp
    then have "take (length p) ((x # xs) @ c) = take (length p) (x # xs)"
      by (simp only: take_append take_0 append_Nil2)
    with False have "take (length p) (x # (xs @ c)) \<noteq> p" by simp
    with Cons.IH [OF j(1)] j(2) show ?thesis by simp
  qed
qed

text \<open>Cutting a stream is the same whether it arrives whole or in chunks.\<close>

lemma splitPrompt_chunks:
  assumes "p \<noteq> []"
  shows "splitPrompt p [] (s @ c) =
     (fst (splitPrompt p [] s) @ fst (splitPrompt p [] (snd (splitPrompt p [] s) @ c)),
      snd (splitPrompt p [] (snd (splitPrompt p [] s) @ c)))"
proof (induction "length s" arbitrary: s rule: less_induct)
  case less
  show ?case
  proof (cases "indexOf s p")
    case None
    then show ?thesis by (simp add: splitPrompt_indexOf_None)
  next
    case (Some i)
    let ?s' = "drop (i + length p) s"
    from indexOf_bound [OF Some] assms have lt: "length ?s' < length s" and le: "i + length p \<le> length s"
      by (cases p; auto)+
    from le have dr: "drop (i + length p) (s @ c) = ?s' @ c" and tk: "take i (s @ c) = take i s"
      by simp_all
    have A: "splitPrompt p [] (s @ c) =
        (case splitPrompt p [] (?s' @ c) of (r, t) \<Rightarrow> (take i s # r, t))"
      using splitPrompt_indexOf_Some [OF assms indexOf_append [OF Some, of c], where acc = "[]"]
      by (simp only: dr tk append_Nil)
    have B: "splitPrompt p [] s =
        (case splitPrompt p [] ?s' of (r, t) \<Rightarrow> (take i s # r, t))"
      using splitPrompt_indexOf_Some [OF assms Some, where acc = "[]"] by simp
    from less [OF lt] show ?thesis
      unfolding A B by (simp split: prod.splits)
  qed
qed

lemma deliver_paired: "deliver m (paired n R rest) = paired n (R @ [m]) rest"
proof (cases "length R < n")
  case True
  then have "[length R..<n] = length R # [Suc (length R)..<n]" by (simp add: upt_conv_Cons)
  moreover from True have "min n (length (R @ [m])) = Suc (length R)" "min n (length R) = length R"
    by simp_all
  ultimately show ?thesis using True
    by (simp add: deliver_def paired_def nth_append)
next
  case False
  then have "min n (length (R @ [m])) = n" "min n (length R) = n" by simp_all
  with False show ?thesis
    by (simp add: deliver_def paired_def nth_append)
qed

lemma foldl_deliver_paired:
  "foldl (\<lambda>st m. deliver m st) (paired n R rest) ms = paired n (R @ ms) rest"
proof (induction ms arbitrary: R)
  case Nil
  then show ?case by simp
next
  case (Cons m ms)
  from Cons [of "R @ [m]"] show ?case by (simp add: deliver_paired)
qed

lemma paired_rest: "(paired n R rest)\<lparr>sinceLastMatch := x\<rparr> = paired n R x"
  by (simp add: paired_def)

lemma next_paired: "next (paired n R rest) = paired (Suc n) R rest"
proof (cases "n < length R")
  case True
  then have "drop n R = R ! n # drop (Suc n) R" by (simp add: Cons_nth_drop_Suc)
  moreover from True have "min (Suc n) (length R) = Suc n" "min n (length R) = n" by simp_all
  ultimately show ?thesis using True
    by (simp add: next_def paired_def Let_def)
next
  case False
  then have "min (Suc n) (length R) = length R" "min n (length R) = length R" by simp_all
  with False show ?thesis
    by (simp add: next_def paired_def Let_def)
qed

lemma onData_paired:
  assumes "p \<noteq> []"
  shows "onData p chunk (paired n R rest) =
     Some (paired n (R @ fst (splitPrompt p [] (rest @ chunk))) (snd (splitPrompt p [] (rest @ chunk))))"
proof -
  have "(paired n R rest)\<lparr>sinceLastMatch := sinceLastMatch (paired n R rest) @ chunk\<rparr>
        = paired n R (rest @ chunk)"
    by (simp add: paired_def)
  then show ?thesis
    by (simp add: onData_def lookForPrompt_split [OF assms] foldl_deliver_paired paired_rest)
       (simp add: paired_def)
qed

lemma run_snoc:
  "run p (as @ [a]) st = (case run p as st of None \<Rightarrow> None | Some st' \<Rightarrow> step p st' a)"
  by (induction as arbitrary: st) (auto split: option.splits)

lemma run_append:
  "run p (as @ bs) st = (case run p as st of None \<Rightarrow> None | Some st' \<Rightarrow> run p bs st')"
  by (induction as arbitrary: st) (auto split: option.splits)

lemma run_quiet:
  assumes "p \<noteq> []" and "list_all quiet as"
  shows "run p as expect =
     Some (paired (nextCalls as) (fst (splitPrompt p [] (dataOf as))) (snd (splitPrompt p [] (dataOf as))))"
  using assms(2)
proof (induction as rule: rev_induct)
  case Nil
  then show ?case by (simp add: expect_def paired_def nextCalls_def dataOf_def)
next
  case (snoc a as)
  then have IH: "run p as expect =
     Some (paired (nextCalls as) (fst (splitPrompt p [] (dataOf as))) (snd (splitPrompt p [] (dataOf as))))"
    and q: "quiet a" by simp_all
  show ?case
  proof (cases a)
    case (Data chunk)
    have at: "attached (paired n R rest)" for n R rest by (simp add: paired_def)
    have d: "dataOf (as @ [a]) = dataOf as @ chunk" "nextCalls (as @ [a]) = nextCalls as"
      using Data by (simp_all add: dataOf_def nextCalls_def)
    show ?thesis
      unfolding run_snoc IH d
      by (simp add: Data at onData_paired [OF assms(1)] splitPrompt_chunks [OF assms(1), of "dataOf as" chunk])
  next
    case Next
    have d: "dataOf (as @ [a]) = dataOf as" "nextCalls (as @ [a]) = Suc (nextCalls as)"
      using Next by (simp_all add: dataOf_def nextCalls_def)
    show ?thesis
      unfolding run_snoc IH d by (simp add: Next next_paired)
  qed (use q in \<open>simp_all add: quiet_def\<close>)
qed


text \<open>
  C8. Take any sequence of chunks arriving and calls of \<^verbatim>\<open>next()\<close>, with a prompt that
  is not empty and a stream that neither fails nor ends. Cut the whole text at the
  prompts, whatever the chunks were: call \<open>k\<close> gets response \<open>k\<close>, for every \<open>k\<close>
  below the number of calls and the number of responses, and is settled in that order;
  the responses beyond the calls wait in \<^verbatim>\<open>found\<close>, in their order, so a later call
  takes the oldest at once; the calls beyond the responses wait in the order they were
  made. Nothing but the order pairs a call with a response.
\<close>

theorem expect_fifo:
  assumes "prompt \<noteq> []" and "list_all quiet as"
  shows "run prompt as expect =
     Some \<lparr>found = drop (nextCalls as) (fst (splitPrompt prompt [] (dataOf as))),
           sinceLastMatch = snd (splitPrompt prompt [] (dataOf as)),
           streamError = None,
           promiseResolvers = [length (fst (splitPrompt prompt [] (dataOf as)))..<nextCalls as],
           attached = True,
           calls = nextCalls as,
           settled = map (\<lambda>k. (k, Inr (fst (splitPrompt prompt [] (dataOf as)) ! k)))
                       [0..<min (nextCalls as) (length (fst (splitPrompt prompt [] (dataOf as))))]\<rparr>"
  using run_quiet [OF assms] by (simp add: paired_def)

lemma example_split:
  "splitPrompt example_prompt [] (dataOf example_actions)
     = ([js ''reply B '', js ''reply A '', js ''extra ''], js ''tail'')"
  by (simp add: example_prompt_def example_actions_def dataOf_def js_def)

theorem expect_fifo_witness:
  "example_prompt \<noteq> [] \<and> list_all quiet example_actions
   \<and> run example_prompt example_actions expect =
     Some \<lparr>found = [], sinceLastMatch = js ''tail'', streamError = None,
           promiseResolvers = [3], attached = True, calls = 4,
           settled = [(0, Inr (js ''reply B '')), (1, Inr (js ''reply A '')), (2, Inr (js ''extra ''))]\<rparr>"
proof -
  have h: "example_prompt \<noteq> []" "list_all quiet example_actions"
    by (simp_all add: example_prompt_def example_actions_def quiet_def js_def)
  have n: "nextCalls example_actions = 4"
    by (simp add: example_actions_def nextCalls_def)
  from expect_fifo [OF h] h show ?thesis
    by (simp add: example_split n upt_rec [of _ "numeral _"] upt_rec [of 0] del: upt_rec_numeral)
qed

text \<open>
  C9, as stated, fails. A response that arrived before \<^verbatim>\<open>dispose()\<close> and that no call
  has taken is still in \<^verbatim>\<open>found\<close>: the first \<^verbatim>\<open>next()\<close> after \<^verbatim>\<open>dispose()\<close> returns
  it, and does not fail.
\<close>

theorem dispose_buffered_counterexample:
  "map_option settled (run example_prompt [Data (js ''hello debugfs:''), Dispose, Next] expect)
     = Some [(0, Inr (js ''hello ''))]"
proof -
  have h: "example_prompt \<noteq> []" "list_all quiet [Data (js ''hello debugfs:'')]"
    by (simp_all add: example_prompt_def quiet_def js_def)
  have s: "splitPrompt example_prompt [] (js ''hello debugfs:'') = ([js ''hello ''], [])"
    by (simp add: example_prompt_def js_def)
  have "run example_prompt [Data (js ''hello debugfs:'')] expect = Some (paired 0 [js ''hello ''] [])"
    using run_quiet [OF h] by (simp add: dataOf_def nextCalls_def s)
  then have "run example_prompt ([Data (js ''hello debugfs:'')] @ [Dispose, Next]) expect
      = run example_prompt [Dispose, Next] (paired 0 [js ''hello ''] [])"
    by (simp only: run_append option.case)
  then show ?thesis
    by (simp add: paired_def dispose_def rejectAll_def next_def Let_def)
qed

lemma run_disposed:
  assumes "\<not> attached st" and "streamError st = Some ExpectDisposed" and "promiseResolvers st = []"
  shows "map_option settled (run prompt as st) =
     Some (settled st @
           map (\<lambda>k. (calls st + k,
                      if k < length (found st) then Inr (found st ! k) else Inl ExpectDisposed))
             [0..<nextCalls as])"
  using assms
proof (induction as arbitrary: st)
  case Nil
  then show ?case by (simp add: nextCalls_def)
next
  case (Cons a as)
  show ?case
  proof (cases a)
    case (Data chunk)
    with Cons show ?thesis by (simp add: nextCalls_def)
  next
    case Error
    with Cons show ?thesis by (simp add: nextCalls_def)
  next
    case End
    with Cons show ?thesis by (simp add: nextCalls_def)
  next
    case Dispose
    have d: "\<not> attached (dispose st)" "streamError (dispose st) = Some ExpectDisposed"
      "promiseResolvers (dispose st) = []" "settled (dispose st) = settled st"
      "found (dispose st) = found st" "calls (dispose st) = calls st"
      using Cons.prems by (simp_all add: dispose_def rejectAll_def)
    from Cons.IH [OF d(1-3), unfolded d(4-6)] Dispose show ?thesis by (simp add: nextCalls_def)
  next
    case Next
    have up: "[0..<Suc (nextCalls as)] = 0 # map Suc [0..<nextCalls as]"
      by (simp add: upt_conv_Cons map_Suc_upt del: upt_Suc)
    have n: "nextCalls (a # as) = Suc (nextCalls as)" using Next by (simp add: nextCalls_def)
    show ?thesis
    proof (cases "found st")
      case Nil
      have d: "\<not> attached (next st)" "streamError (next st) = Some ExpectDisposed"
        "promiseResolvers (next st) = []"
        "settled (next st) = settled st @ [(calls st, Inl ExpectDisposed)]"
        "found (next st) = []" "calls (next st) = Suc (calls st)"
        using Cons.prems Nil by (simp_all add: next_def Let_def)
      from Cons.IH [OF d(1-3), unfolded d(4-6)] Next Nil show ?thesis
        unfolding n up by (simp add: comp_def)
    next
      case (Cons v vs)
      have d: "\<not> attached (next st)" "streamError (next st) = Some ExpectDisposed"
        "promiseResolvers (next st) = []"
        "settled (next st) = settled st @ [(calls st, Inr v)]"
        "found (next st) = vs" "calls (next st) = Suc (calls st)"
        using Cons.prems Cons by (simp_all add: next_def Let_def)
      from Cons.IH [OF d(1-3), unfolded d(4-6)] Next Cons show ?thesis
        unfolding n up by (simp add: comp_def cong del: if_weak_cong)
    qed
  qed
qed

text \<open>
  C9, amended. \<^verbatim>\<open>dispose()\<close> fails every call that waits with the error
  \<^verbatim>\<open>Expect disposed\<close>. Whatever happens afterwards, call \<open>k\<close> of the calls made after
  it returns response \<open>k\<close> of those left in \<^verbatim>\<open>found\<close>, when there are that many, and
  fails with \<^verbatim>\<open>Expect disposed\<close> otherwise; nothing the stream emits changes this.
\<close>

theorem dispose_fails_calls:
  "map_option settled (run prompt (Dispose # as) st) =
     Some (settled st
           @ map (\<lambda>r. (r, Inl ExpectDisposed)) (promiseResolvers st)
           @ map (\<lambda>k. (calls st + k,
                        if k < length (found st) then Inr (found st ! k) else Inl ExpectDisposed))
               [0..<nextCalls as])"
proof -
  have d: "\<not> attached (dispose st)" "streamError (dispose st) = Some ExpectDisposed"
    "promiseResolvers (dispose st) = []"
    "settled (dispose st) = settled st @ map (\<lambda>r. (r, Inl ExpectDisposed)) (promiseResolvers st)"
    "found (dispose st) = found st" "calls (dispose st) = calls st"
    by (simp_all add: dispose_def rejectAll_def)
  from run_disposed [OF d(1-3), of prompt as, unfolded d(4-6)] show ?thesis by simp
qed

subsection \<open>The filesystem walker\<close>

lemma example_root_decoded:
  "parseHex 256 example_root_hex =
    (replicate 256 0)
    [0 := 237, 1 := 65, 2 := 0, 3 := 0, 4 := 0, 5 := 16, 6 := 0, 7 := 0, 8 := 0,
      9 := 0, 10 := 0, 11 := 0, 12 := 0, 13 := 0, 14 := 0, 15 := 0, 32 := 0, 33 := 0,
      34 := 8, 35 := 0, 36 := 0, 37 := 0, 38 := 0, 39 := 0, 40 := 10, 41 := 243,
      42 := 1, 43 := 0, 44 := 4, 45 := 0, 46 := 0, 47 := 0, 48 := 0, 49 := 0, 50 := 0,
      51 := 0, 52 := 0, 53 := 0, 54 := 0, 55 := 0, 56 := 1, 57 := 0, 58 := 0, 59 := 0,
      60 := 136, 61 := 19, 62 := 0, 63 := 0]"
  by (simp add: example_root_hex_def parseHex_def js_def hex_eval upt_unroll)

lemma example_bad_root_decoded:
  "parseHex 256 example_bad_root_hex =
    (replicate 256 0)
    [0 := 237, 1 := 65, 2 := 0, 3 := 0, 4 := 0, 5 := 16, 6 := 0, 7 := 0, 8 := 0,
      9 := 0, 10 := 0, 11 := 0, 12 := 0, 13 := 0, 14 := 0, 15 := 0, 32 := 0, 33 := 0,
      34 := 8, 35 := 0, 36 := 0, 37 := 0, 38 := 0, 39 := 0, 40 := 10, 41 := 243,
      42 := 1, 43 := 0, 44 := 4, 45 := 0, 46 := 0, 47 := 0, 48 := 0, 49 := 0, 50 := 0,
      51 := 0, 52 := 0, 53 := 0, 54 := 0, 55 := 0, 56 := 1, 57 := 0, 58 := 0, 59 := 0,
      60 := 221, 61 := 249, 62 := 65, 63 := 2]"
  by (simp add: example_bad_root_hex_def parseHex_def js_def hex_eval upt_unroll)

lemma example_link_decoded:
  "parseHex 256 example_link_hex =
    (replicate 256 0)
    [0 := 255, 1 := 161, 2 := 0, 3 := 0, 4 := 100, 5 := 0, 6 := 0, 7 := 0, 8 := 0,
      9 := 0, 10 := 0, 11 := 0, 12 := 0, 13 := 0, 14 := 0, 15 := 0, 32 := 0, 33 := 0,
      34 := 8, 35 := 0, 36 := 0, 37 := 0, 38 := 0, 39 := 0, 40 := 10, 41 := 243,
      42 := 1, 43 := 0, 44 := 4, 45 := 0, 46 := 0, 47 := 0, 48 := 0, 49 := 0, 50 := 0,
      51 := 0, 52 := 0, 53 := 0, 54 := 0, 55 := 0, 56 := 1, 57 := 0, 58 := 0, 59 := 0,
      60 := 221, 61 := 249, 62 := 65, 63 := 2]"
  by (simp add: example_link_hex_def parseHex_def js_def hex_eval upt_unroll)

lemma example_device_decoded:
  "parseHex 256 example_device_hex =
    (replicate 256 0)
    [0 := 176, 1 := 97, 2 := 0, 3 := 0, 4 := 0, 5 := 0, 6 := 0, 7 := 0, 8 := 0, 9 := 0,
      10 := 0, 11 := 0, 12 := 0, 13 := 0, 14 := 0, 15 := 0]"
  by (simp add: example_device_hex_def parseHex_def js_def hex_eval upt_unroll)


lemma example_listing_entries:
  "dirEntries_loop True example_listing
     = [\<lparr>entry_inode = 12, entry_name = js ''link''\<rparr>, \<lparr>entry_inode = 13, entry_name = js ''sda''\<rparr>]"
  by (simp add: example_listing_def js_def matchDirEntry_def digitsSlash_def isDigit_def
      isLineTerminator_def toNumber_def Let_def)

lemma example_fs_replies:
  "debugfsReply example_fs (Id 2) = Inr example_root_hex"
  "debugfsReply example_fs (Ls 2) = Inr example_listing"
  "debugfsReply example_fs (Id 12) = Inr example_link_hex"
  "debugfsReply example_fs (Id 13) = Inr example_device_hex"
  "debugfsReply example_fs (Ls 13) = Inr []"
  "debugfsReply example_fs_bad_root (Id 2) = Inr example_bad_root_hex"
  by (simp_all add: debugfsReply_def example_fs_def example_fs_bad_root_def afterFirstLine_def js_def)


lemma u16at_i_block:
  "length (ino_buf info) = 256 \<Longrightarrow> j + 2 \<le> 60 \<Longrightarrow>
     u16at (get_i_block info) j = u16at (ino_buf info) (40 + j)"
  by (simp add: u16at_def get_i_block_def add.commute add.left_commute)

lemma u32at_i_block:
  "length (ino_buf info) = 256 \<Longrightarrow> j + 4 \<le> 60 \<Longrightarrow>
     u32at (get_i_block info) j = u32at (ino_buf info) (40 + j)"
  by (simp add: u32at_def get_i_block_def add.commute add.left_commute)

lemma dataIsSafe_single_extent:
  assumes len: "length (ino_buf info) = 256"
    and flags: "u32at (ino_buf info) 32 = 524288"
    and hdr: "u16at (ino_buf info) 42 = 1" "u16at (ino_buf info) 46 = 0"
  shows "dataIsSafe (Suc k) env info =
     Some (Inr (rangeIsSafe (u32at (ino_buf info) 60 * 4096)
                  ((u32at (ino_buf info) 60 + u16at (ino_buf info) 56) * 4096)), [])"
proof -
  let ?ib = "get_i_block info"
  have l: "length ?ib = 60" using len by (simp add: get_i_block_def)
  have r: "u16at ?ib 2 = 1" "u16at ?ib 6 = 0" "u32at ?ib 20 = u32at (ino_buf info) 60"
    "u16at ?ib 16 = u16at (ino_buf info) 56"
    using len hdr by (simp_all add: u16at_i_block u32at_i_block)
  have "extentsAreSafe (Suc k) env ?ib =
     Some (Inr (\<forall>i < nat (u16at ?ib 2).
                  rangeIsSafe (u32at ?ib (12 * (i + 1) + 8) * 4096)
                    ((u32at ?ib (12 * (i + 1) + 8) + u16at ?ib (12 * (i + 1) + 4)) * 4096)), [])"
    using l r by (intro extentsAreSafe_leaf) simp_all
  then have e: "extentsAreSafe (Suc k) env ?ib =
     Some (Inr (rangeIsSafe (u32at (ino_buf info) 60 * 4096)
                  ((u32at (ino_buf info) 60 + u16at (ino_buf info) 56) * 4096)), [])"
    by (simp add: r)
  have "usesExtents info = Inr True"
    using len flags by (simp add: usesExtents_def readUint32LE_def onValue_def S_EXTENTS_def)
  with e show ?thesis by (simp add: dataIsSafe_def Let_def)
qed

lemma example_root_safe:
  "dataIsSafe (Suc k) env (InodeInfo 2 [] example_root_hex) = Some (Inr True, [])"
proof -
  let ?info = "InodeInfo 2 [] example_root_hex"
  have b: "ino_buf ?info = parseHex 256 example_root_hex" by (simp add: InodeInfo_def)
  have "dataIsSafe (Suc k) env ?info =
     Some (Inr (rangeIsSafe (u32at (ino_buf ?info) 60 * 4096)
                  ((u32at (ino_buf ?info) 60 + u16at (ino_buf ?info) 56) * 4096)), [])"
    by (rule dataIsSafe_single_extent)
       (simp_all add: b length_parseHex, simp_all add: example_root_decoded u32at_def u16at_def)
  moreover have "u32at (ino_buf ?info) 60 = 5000" "u16at (ino_buf ?info) 56 = 1"
    by (simp_all add: b example_root_decoded u32at_def u16at_def)
  ultimately show ?thesis by (simp add: rangeIsSafe_def badRanges_def)
qed


lemma example_bad_root_unsafe:
  "dataIsSafe (Suc k) env (InodeInfo 2 [] example_bad_root_hex) = Some (Inr False, [])"
proof -
  let ?info = "InodeInfo 2 [] example_bad_root_hex"
  have b: "ino_buf ?info = parseHex 256 example_bad_root_hex" by (simp add: InodeInfo_def)
  have "dataIsSafe (Suc k) env ?info =
     Some (Inr (rangeIsSafe (u32at (ino_buf ?info) 60 * 4096)
                  ((u32at (ino_buf ?info) 60 + u16at (ino_buf ?info) 56) * 4096)), [])"
    by (rule dataIsSafe_single_extent)
       (simp_all add: b length_parseHex, simp_all add: example_bad_root_decoded u32at_def u16at_def)
  moreover have "u32at (ino_buf ?info) 60 = 37878237" "u16at (ino_buf ?info) 56 = 1"
    by (simp_all add: b example_bad_root_decoded u32at_def u16at_def)
  ultimately show ?thesis by (simp add: rangeIsSafe_def badRanges_def)
qed

lemma example_link_fields:
  "ino_id example_link = 12" "ino_name example_link = js ''link''"
  "ino_buf example_link = parseHex 256 example_link_hex"
  by (simp_all add: example_link_def InodeInfo_def)

lemma example_device_fields:
  "ino_id example_device = 13" "ino_name example_device = js ''sda''"
  "ino_buf example_device = parseHex 256 example_device_hex"
  by (simp_all add: example_device_def InodeInfo_def)

lemma example_link_mode: "u16at (ino_buf example_link) 0 = 0xa1ff"
  by (simp add: example_link_fields example_link_decoded u16at_def)

lemma example_device_mode: "u16at (ino_buf example_device) 0 = 0x61b0"
  by (simp add: example_device_fields example_device_decoded u16at_def)

lemma example_link_type: "isFile example_link = Inr True" "isDir example_link = Inr False"
  by (simp_all add: isFile_def isDir_def readUint16LE_def onValue_def example_link_mode
      S_IFREG_def S_IFDIR_def, simp_all add: example_link_fields length_parseHex)

lemma example_device_type: "isFile example_device = Inr False" "isDir example_device = Inr True"
  by (simp_all add: isFile_def isDir_def readUint16LE_def onValue_def example_device_mode
      S_IFREG_def S_IFDIR_def, simp_all add: example_device_fields length_parseHex)

lemma example_link_unsafe: "dataIsSafe (Suc k) env example_link = Some (Inr False, [])"
proof -
  have "dataIsSafe (Suc k) env example_link =
     Some (Inr (rangeIsSafe (u32at (ino_buf example_link) 60 * 4096)
                  ((u32at (ino_buf example_link) 60 + u16at (ino_buf example_link) 56) * 4096)), [])"
    by (rule dataIsSafe_single_extent)
       (simp_all add: example_link_fields length_parseHex,
        simp_all add: example_link_decoded u32at_def u16at_def)
  moreover have "u32at (ino_buf example_link) 60 = 37878237" "u16at (ino_buf example_link) 56 = 1"
    by (simp_all add: example_link_fields example_link_decoded u32at_def u16at_def)
  ultimately show ?thesis by (simp add: rangeIsSafe_def badRanges_def)
qed

lemma example_device_safe: "dataIsSafe k env example_device = Some (Inr True, [])"
proof -
  have len: "length (ino_buf example_device) = 256"
    by (simp add: example_device_fields length_parseHex)
  have "u32at (ino_buf example_device) 4 = 0" "u32at (ino_buf example_device) 32 = 0"
    by (simp_all add: example_device_fields example_device_decoded u32at_def)
  then have n: "blocksInUse example_device = Inr 0" and x: "usesExtents example_device = Inr False"
    using len
    by (simp_all add: blocksInUse_def usesExtents_def readUint32LE_def onValue_def ceilDiv_def
        S_EXTENTS_def)
  have "length (get_i_block example_device) = 60" using len by (simp add: get_i_block_def)
  from blocksAreSafe_direct [OF n _ this, of env] x show ?thesis
    by (simp add: dataIsSafe_def Let_def)
qed

lemma example_addresses_safe:
  "inodeIsSafe example_table 12 = Inr True" "inodeIsSafe example_table 13 = Inr True"
  by (simp_all add: inodeIsSafe_def getAddressOfInode_def example_table_def js_rem_def Let_def
      rangeIsSafe_def badRanges_def)

lemma example_addresses_bad:
  "inodeIsSafe example_bad_table 2 = Inr False"
  "inodeIsSafe example_bad_table 12 = Inr False" "inodeIsSafe example_bad_table 13 = Inr False"
  by (simp_all add: inodeIsSafe_def getAddressOfInode_def example_bad_table_def js_rem_def Let_def
      rangeIsSafe_def badRanges_def)

lemma example_getDirEntries:
  "getDirEntries example_fs 2 =
     Some (Inr [\<lparr>entry_inode = 12, entry_name = js ''link''\<rparr>,
                \<lparr>entry_inode = 13, entry_name = js ''sda''\<rparr>], [Sent (Ls 2)])"
  "getDirEntries example_fs 13 = Some (Inr [], [Sent (Ls 13)])"
  by (simp_all add: getDirEntries_def debugfsCmd_def example_fs_replies example_listing_entries
      ret_def)

lemma example_fetchInfos:
  "fetchInfos example_fs [\<lparr>entry_inode = 12, entry_name = js ''link''\<rparr>,
                          \<lparr>entry_inode = 13, entry_name = js ''sda''\<rparr>]
     = Some (Inr [example_link, example_device], [Sent (Id 12), Sent (Id 13)])"
  by (simp add: fetchInfos_def example_fs_replies onValue_def example_link_def example_device_def)

lemma example_device_recurse:
  "recurse (Suc 0) example_fs tbl path example_device visited = Some (Inr visited, [Sent (Ls 13)])"
  by (simp add: example_device_safe example_device_fields example_getDirEntries fetchInfos_def
      ret_def)

lemma InodeInfo_fields:
  "ino_id (InodeInfo i name hex) = i" "ino_name (InodeInfo i name hex) = name"
  "ino_buf (InodeInfo i name hex) = parseHex 256 hex"
  by (simp_all add: InodeInfo_def)

lemma example_visit:
  "visitEntries (\<lambda>p info visited. recurse (Suc 0) example_fs tbl p info visited)
     (\<lambda>info. dataIsSafe (Suc (Suc 0)) example_fs info) [] [example_link, example_device] {}
   = Some (Inr {12, 13}, [Printed (js ''BAD /link''), Sent (Ls 13)])"
  by (simp add: example_link_fields example_device_fields example_link_type example_device_type
      example_link_unsafe example_device_safe example_device_recurse emit_def ret_def Let_def
      del: recurse.simps)
     (simp add: js_def insert_commute)

lemma example_walk:
  "main_walk (Suc (Suc 0)) example_fs example_table =
     Some (Inr {12, 13},
           [Sent (Id 2), Sent (Ls 2), Sent (Id 12), Sent (Id 13), Printed (js ''BAD /link''),
            Sent (Ls 13)])"
  by (simp add: main_walk_def ROOT_DIR_INODE_def debugfsCmd_def example_fs_replies
      example_root_safe InodeInfo_fields example_getDirEntries example_addresses_safe
      example_fetchInfos example_visit ret_def del: visitEntries.simps)


lemma example_walk_bad_table:
  "main_walk (Suc (Suc 0)) example_fs example_bad_table =
     Some (Inr {},
           [Sent (Id 2), Sent (Ls 2), Printed (js ''BAD /link''), Printed (js ''BAD /sda'')])"
  by (simp add: main_walk_def ROOT_DIR_INODE_def debugfsCmd_def example_fs_replies
      example_root_safe InodeInfo_fields example_getDirEntries example_addresses_bad
      fetchInfos_def emit_def ret_def)
     (simp add: js_def)

lemma example_walk_bad_root:
  "main_walk (Suc (Suc 0)) example_fs_bad_root example_bad_table =
     Some (Inr {}, [Sent (Id 2), Printed (js ''BAD '')])"
  by (simp add: main_walk_def ROOT_DIR_INODE_def debugfsCmd_def example_fs_replies
      example_bad_root_unsafe nullish_def emit_def ret_def)

text \<open>What \<^verbatim>\<open>dataIsSafe\<close> sends.\<close>

lemma onlyFetches_ret [simp]: "onlyFetches (ret x)"
  by (simp add: onlyFetches_def ret_def)

lemma onlyFetches_lift [simp]: "onlyFetches (lift r)"
  by (simp add: onlyFetches_def lift_def)

lemma onlyFetches_bd [simp]: "onlyFetches (debugfsCmd env (Bd b))"
  by (simp add: onlyFetches_def debugfsCmd_def isFetch_def)

lemma onlyFetches_andThen:
  assumes "onlyFetches m" and "\<And>x. onlyFetches (f x)"
  shows "onlyFetches (andThen m f)"
proof (cases m)
  case None
  then show ?thesis by (simp add: onlyFetches_def)
next
  case (Some a)
  obtain r evs where a: "a = (r, evs)" by (cases a)
  show ?thesis
  proof (cases r)
    case (Inl err)
    with Some a assms(1) show ?thesis by (simp add: onlyFetches_def)
  next
    case (Inr x)
    with Some a assms(1) assms(2) [of x] show ?thesis
      by (cases "f x") (auto simp: onlyFetches_def)
  qed
qed

lemma onlyFetches_allSafe:
  "(\<And>i. onlyFetches (body i)) \<Longrightarrow> onlyFetches (allSafe body xs)"
  by (induction xs) (auto intro!: onlyFetches_andThen)

lemma onlyFetches_extents: "onlyFetches (extentsAreSafe fuel env buf)"
proof (induction fuel arbitrary: buf)
  case 0
  show ?case by (simp add: onlyFetches_def)
next
  case (Suc fuel)
  show ?case
    by (auto simp: Let_def extentLeafEntry_def extentIndexEntry_def
        intro!: onlyFetches_andThen onlyFetches_allSafe Suc)
qed

lemma onlyFetches_L1: "onlyFetches (blocksL1AreSafe env b n)"
  by (auto simp: blocksL1AreSafe_def Let_def intro!: onlyFetches_andThen onlyFetches_allSafe)

lemma onlyFetches_L2: "onlyFetches (blocksL2AreSafe env b n)"
  by (auto simp: blocksL2AreSafe_def Let_def
      intro!: onlyFetches_andThen onlyFetches_allSafe onlyFetches_L1)

lemma onlyFetches_L3: "onlyFetches (blocksL3AreSafe env b n)"
  by (auto simp: blocksL3AreSafe_def Let_def
      intro!: onlyFetches_andThen onlyFetches_allSafe onlyFetches_L2)

lemma onlyFetches_blocks: "onlyFetches (blocksAreSafe env info ib)"
  by (auto simp: blocksAreSafe_def Let_def
      intro!: onlyFetches_andThen onlyFetches_allSafe onlyFetches_L1 onlyFetches_L2 onlyFetches_L3)

lemma onlyFetches_dataIsSafe: "onlyFetches (dataIsSafe fuel env info)"
  by (auto simp: dataIsSafe_def Let_def
      intro!: onlyFetches_andThen onlyFetches_extents onlyFetches_blocks)

lemma recurse_unsafe:
  assumes "dataIsSafe (Suc fuel) env info = Some (Inr False, evs)"
  shows "recurse (Suc fuel) env tbl path info visited
     = Some (Inr visited, evs @ [Printed (js ''BAD '' @ path)])"
  using assms by (simp add: emit_def ret_def nullish_def)

text \<open>
  C3. An entry that is neither a regular file nor a directory is to be passed over. The
  code does not do so for every type: \<^verbatim>\<open>isFile\<close> and \<^verbatim>\<open>isDir\<close> each test one bit of the
  mode, \<open>0x8000\<close> and \<open>0x4000\<close>, and the type of a symbolic link, \<open>0xA000\<close>, has the first,
  that of a block device, \<open>0x6000\<close>, the second. In the walk of \<open>example_fs\<close> the
  symbolic link is tested by \<^verbatim>\<open>dataIsSafe\<close> and reported, and the block device is
  entered: its listing is asked for.
\<close>

theorem recurse_other_types:
  "u16at (ino_buf example_link) 0 = 0xa1ff
   \<and> isFile example_link = Inr True
   \<and> u16at (ino_buf example_device) 0 = 0x61b0
   \<and> isDir example_device = Inr True
   \<and> main_walk (Suc (Suc 0)) example_fs example_table =
       Some (Inr {12, 13},
             [Sent (Id 2), Sent (Ls 2), Sent (Id 12), Sent (Id 13), Printed (js ''BAD /link''),
              Sent (Ls 13)])"
  using example_link_mode example_link_type(1) example_device_mode example_device_type(2)
    example_walk
  by simp

text \<open>
  C4, as stated, fails. With \<open>example_bad_table\<close> the record of the root directory,
  inode 2, lies in a bad range. The walk of \<open>example_fs\<close> does not test this: the blocks
  of the root directory are safe, so its listing is asked for and its entries are
  looked at. And where the blocks of the root directory are not safe, with
  \<open>example_fs_bad_root\<close>, the line printed is \<^verbatim>\<open>BAD\<close> and a space, without the slash: the
  path of the root directory is the empty string, which \<^verbatim>\<open>??\<close> does not replace.
\<close>

theorem root_record_counterexample:
  "inodeIsSafe example_bad_table ROOT_DIR_INODE = Inr False
   \<and> main_walk (Suc (Suc 0)) example_fs example_bad_table =
       Some (Inr {},
             [Sent (Id 2), Sent (Ls 2), Printed (js ''BAD /link''), Printed (js ''BAD /sda'')])
   \<and> main_walk (Suc (Suc 0)) example_fs_bad_root example_bad_table =
       Some (Inr {}, [Sent (Id 2), Printed (js ''BAD '')])"
  using example_addresses_bad(1) example_walk_bad_table example_walk_bad_root
  by (simp add: ROOT_DIR_INODE_def)

text \<open>
  C4, amended. When \<^verbatim>\<open>dataIsSafe\<close> is false of the record of the root directory, that
  is when one of the blocks of the root directory lies in a bad range, the walk sends
  the command for that record and the fetches of blocks that \<^verbatim>\<open>dataIsSafe\<close> makes,
  prints one line, which starts with \<^verbatim>\<open>BAD\<close> and a space, and ends: no listing is asked
  for and no entry is visited.
\<close>

theorem main_walk_unsafe_root:
  assumes "debugfsReply env (Id ROOT_DIR_INODE) = Inr hex"
    and "dataIsSafe (Suc fuel) env (InodeInfo ROOT_DIR_INODE [] hex) = Some (Inr False, evs)"
  shows "\<exists>line. main_walk (Suc fuel) env tbl
            = Some (Inr {}, Sent (Id ROOT_DIR_INODE) # evs @ [Printed line])
          \<and> take 4 line = js ''BAD ''
          \<and> list_all isFetch evs"
proof -
  from onlyFetches_dataIsSafe [of "Suc fuel" env "InodeInfo ROOT_DIR_INODE [] hex"] assms(2)
  have "list_all isFetch evs" by (simp add: onlyFetches_def)
  moreover have "main_walk (Suc fuel) env tbl
      = Some (Inr {}, Sent (Id ROOT_DIR_INODE) # evs @ [Printed (js ''BAD '' @ [])])"
    using assms(1) recurse_unsafe [OF assms(2), of tbl "[]" "{}"]
    by (simp add: main_walk_def debugfsCmd_def del: recurse.simps)
  moreover have "take 4 (js ''BAD '' @ []) = js ''BAD ''" by (simp add: js_def)
  ultimately show ?thesis by blast
qed


theorem main_walk_unsafe_root_witness:
  "debugfsReply example_fs_bad_root (Id ROOT_DIR_INODE) = Inr example_bad_root_hex
   \<and> dataIsSafe (Suc 0) example_fs_bad_root (InodeInfo ROOT_DIR_INODE [] example_bad_root_hex)
       = Some (Inr False, [])
   \<and> (\<exists>line. main_walk (Suc 0) example_fs_bad_root example_bad_table
                 = Some (Inr {}, Sent (Id ROOT_DIR_INODE) # [] @ [Printed line])
               \<and> take 4 line = js ''BAD '' \<and> list_all isFetch [])"
proof -
  have h1: "debugfsReply example_fs_bad_root (Id ROOT_DIR_INODE) = Inr example_bad_root_hex"
    by (simp add: ROOT_DIR_INODE_def example_fs_replies)
  have h2: "dataIsSafe (Suc 0) example_fs_bad_root (InodeInfo ROOT_DIR_INODE [] example_bad_root_hex)
       = Some (Inr False, [])"
    by (simp add: ROOT_DIR_INODE_def example_bad_root_unsafe)
  from main_walk_unsafe_root [OF h1 h2, of example_bad_table] h1 h2 show ?thesis by blast
qed

end
